theory Spec2Isabelle
  imports Complex_Main "HOL-Library.Word"
begin

unbundle bit_operations_syntax

section \<open>JavaScript numbers, bit operators and typed arrays\<close>

text \<open>
  Every number the driver handles is an integer far below \<open>2 ^ 53\<close>, so a JavaScript
  number is an \<open>int\<close>. The bit operators first convert their operands to a signed
  32-bit integer (ToInt32) and take the shift count modulo 32; their result is again a
  signed 32-bit integer.
\<close>

type_synonym u8 = "8 word"

definition ToInt32 :: "int \<Rightarrow> int" where
  "ToInt32 x = signed_take_bit 31 x"

definition js_or :: "int \<Rightarrow> int \<Rightarrow> int" where
  "js_or a b = ToInt32 (ToInt32 a OR ToInt32 b)"

definition js_and :: "int \<Rightarrow> int \<Rightarrow> int" where
  "js_and a b = ToInt32 (ToInt32 a AND ToInt32 b)"

definition js_shl :: "int \<Rightarrow> int \<Rightarrow> int" where
  "js_shl a k = ToInt32 (push_bit (nat (k mod 32)) (ToInt32 a))"

definition js_sar :: "int \<Rightarrow> int \<Rightarrow> int" where
  "js_sar a k = drop_bit (nat (k mod 32)) (ToInt32 a)"

text \<open>
  A \<open>Uint8Array\<close> is a list of bytes of fixed length. Reading past the end gives
  \<open>undefined\<close>, which every bit operator turns into 0; all reads of the driver feed a
  bit operator. Writing past the end is ignored; a stored number is reduced modulo 256.
\<close>

definition rd :: "u8 list \<Rightarrow> nat \<Rightarrow> int" where
  "rd buf i = (if i < length buf then uint (buf ! i) else 0)"

definition store :: "u8 list \<Rightarrow> nat \<Rightarrow> int \<Rightarrow> u8 list" where
  "store arr i v = (if i < length arr then arr[i := word_of_int v] else arr)"

definition Uint8Array :: "nat \<Rightarrow> u8 list" where
  "Uint8Array n = replicate n 0"

section \<open>Constants of the driver\<close>

definition MTP_PACKET_TYPE_COMMAND :: int where "MTP_PACKET_TYPE_COMMAND = 0x0001"
definition CONTAINER_TYPE_DATA :: int where "CONTAINER_TYPE_DATA = 0x0002"
definition MTP_OPEN_SESSION :: int where "MTP_OPEN_SESSION = 0x1002"
definition MTP_GET_STORAGE_IDS :: int where "MTP_GET_STORAGE_IDS = 0x1004"
definition GET_OBJECT :: int where "GET_OBJECT = 0x1009"
definition MTP_DELETE_OBJECT :: int where "MTP_DELETE_OBJECT = 0x100b"
definition SEND_OBJECT_INFO :: int where "SEND_OBJECT_INFO = 0x100c"
definition SEND_OBJECT :: int where "SEND_OBJECT = 0x100d"
definition UNDEFINED_OBJECT_FORMAT :: int where "UNDEFINED_OBJECT_FORMAT = 0x3000"
definition PLACE_IN_ROOT :: int where "PLACE_IN_ROOT = 0xffffffff"
definition MTP_OK :: int where "MTP_OK = 0x2001"
definition SESSION_ALREADY_OPEN :: int where "SESSION_ALREADY_OPEN = 0x201e"
definition MTP_PACKET_MAX_SIZE :: nat where "MTP_PACKET_MAX_SIZE = 512"
definition MTP_CONTAINER_ARRAY_LEN :: nat where "MTP_CONTAINER_ARRAY_LEN = 12"

section \<open>The container codec: class mtpPacket\<close>

record mtpPacket =
  parameterArrayLength :: nat
  containerArrayLength :: nat
  container_array :: "u8 list"
  parameters_array :: "u8 list"
  type :: int
  operation :: int
  transaction_id :: int

definition new_mtpPacket :: "nat \<Rightarrow> mtpPacket" where
  "new_mtpPacket parameterLength =
     \<lparr> parameterArrayLength = parameterLength * 4,
       containerArrayLength = parameterLength * 4 + MTP_CONTAINER_ARRAY_LEN,
       container_array = Uint8Array (parameterLength * 4 + MTP_CONTAINER_ARRAY_LEN),
       parameters_array = Uint8Array (parameterLength * 4),
       type = 0, operation = 0, transaction_id = 0 \<rparr>"

definition setTransactionType :: "int \<Rightarrow> mtpPacket \<Rightarrow> mtpPacket" where
  "setTransactionType transactionType p = p\<lparr>type := transactionType\<rparr>"

definition setOperation :: "int \<Rightarrow> mtpPacket \<Rightarrow> mtpPacket" where
  "setOperation op p = p\<lparr>operation := op\<rparr>"

definition setTransactionID :: "int \<Rightarrow> mtpPacket \<Rightarrow> mtpPacket" where
  "setTransactionID tid p = p\<lparr>transaction_id := tid\<rparr>"

text \<open>One of the five loops of \<open>setParams\<close>: four bytes of \<open>param\<close> from offset \<open>base\<close>.\<close>

definition put_param :: "nat \<Rightarrow> int \<Rightarrow> u8 list \<Rightarrow> u8 list" where
  "put_param base param arr =
     fold (\<lambda>i a. store a (i + base) (js_and (js_sar param (int i * 8)) 0xff)) [0..<4] arr"

definition setParams :: "int \<Rightarrow> int \<Rightarrow> int \<Rightarrow> int \<Rightarrow> int \<Rightarrow> mtpPacket \<Rightarrow> mtpPacket" where
  "setParams param1 param2 param3 param4 param5 p =
     p\<lparr>parameters_array :=
         put_param 16 param5 (put_param 12 param4 (put_param 8 param3
           (put_param 4 param2 (put_param 0 param1 (parameters_array p)))))\<rparr>"

definition pack :: "mtpPacket \<Rightarrow> mtpPacket" where
  "pack p =
     (let c0 = container_array p;
          c1 = fold (\<lambda>i a. store a i (js_and (js_sar (int (containerArrayLength p)) (int i * 8)) 0xff))
                 [0..<4] c0;
          c2 = store c1 4 (js_and (type p) 0xff);
          c3 = store c2 5 (js_and (js_sar (type p) 8) 0xff);
          c4 = store c3 6 (js_and (operation p) 0xff);
          c5 = store c4 7 (js_and (js_sar (operation p) 8) 0xff);
          hdr = containerArrayLength p - parameterArrayLength p;
          c6 = fold (\<lambda>i a. store a i (js_and (js_sar (transaction_id p) ((int i - 8) * 8)) 0xff))
                 [8..<hdr] c5;
          c7 = fold (\<lambda>i a. store a i (rd (parameters_array p) (i - hdr)))
                 [hdr..<containerArrayLength p] c6
      in p\<lparr>container_array := c7\<rparr>)"

text \<open>
  The way every operation of the driver builds its Command packet: a packet for
  \<open>n\<close> parameters, the type, the operation and the transaction id set, \<open>setParams\<close>
  with five arguments, then \<open>pack\<close>.
\<close>

definition command_packet :: "nat \<Rightarrow> int \<Rightarrow> int \<Rightarrow> int \<Rightarrow> int \<Rightarrow> int \<Rightarrow> int \<Rightarrow> int \<Rightarrow> u8 list" where
  "command_packet n op tx p1 p2 p3 p4 p5 =
     container_array (pack (setParams p1 p2 p3 p4 p5 (setTransactionID tx (setOperation op
       (setTransactionType MTP_PACKET_TYPE_COMMAND (new_mtpPacket n))))))"

text \<open>Little-endian bytes, as the specification words them: byte \<open>i\<close> of \<open>v\<close> is
  \<open>v div 256 ^ i mod 256\<close>.\<close>

definition le_bytes :: "nat \<Rightarrow> int \<Rightarrow> u8 list" where
  "le_bytes k v = map (\<lambda>i. word_of_int (v div 256 ^ i)) [0..<k]"

section \<open>The datasets\<close>

text \<open>
  Class \<open>ObjectInfoDataset\<close>. Its 52-byte array is called \<open>container_array\<close> in the
  source, as the packet's is; here it is \<open>info_container_array\<close>. \<open>fileID\<close> is
  \<open>None\<close> where the source passes \<open>undefined\<close>. The array \<open>keywords\<close> of the source
  is \<open>keywords_array\<close>; the field \<open>concatArray\<close> (always null) is left out.
\<close>

record ObjectInfoDataset =
  containerLength :: nat
  info_container_array :: "u8 list"
  filename_array :: "u8 list"
  fileID :: "int option"
  fileName :: string
  dateCreateLength :: "u8 list"
  dateCreateArray :: "u8 list"
  dateModLength :: "u8 list"
  dateModArray :: "u8 list"
  keywords_array :: "u8 list"

definition date_array :: "u8 list" where
  "date_array = [0x32, 0x0, 0x30, 0x0, 0x32, 0x0, 0x32, 0x0, 0x30, 0x0, 0x33, 0x0, 0x31, 0x0,
     0x35, 0x0, 0x54, 0x0, 0x30, 0x0, 0x39, 0x0, 0x33, 0x0, 0x37, 0x0, 0x34, 0x0, 0x30, 0x0,
     0x2e, 0x0, 0x30]"

definition new_ObjectInfoDataset :: "int option \<Rightarrow> ObjectInfoDataset" where
  "new_ObjectInfoDataset file_id =
     \<lparr> containerLength = 52,
       info_container_array = Uint8Array 52,
       filename_array = Uint8Array 0,
       fileID = file_id,
       fileName = [],
       dateCreateLength = [0, 0, 0, 0x12],
       dateCreateArray = date_array,
       dateModLength = [0, 0, 0, 0x12],
       dateModArray = date_array,
       keywords_array = [0, 0, 0, 0] \<rparr>"

text \<open>\<open>initContainer\<close>: the file name as length byte and 16-bit characters, then the
  fixed fields of the 52-byte prefix.\<close>

definition initContainer ::
  "int \<Rightarrow> int \<Rightarrow> int \<Rightarrow> int \<Rightarrow> string \<Rightarrow> ObjectInfoDataset \<Rightarrow> ObjectInfoDataset" where
  "initContainer objectFormat objectCompressedSize associationType associationDesc filename d =
     (let n = length filename;
          fa = fold (\<lambda>j a. store (store a (2 * j) (if 2 * j = 0 then int n + 1 else 0))
                               (2 * j + 1) (of_char (filename ! j)))
                 [0..<n] (Uint8Array (n * 2));
          c1 = fold (\<lambda>i a. store a i (js_and (js_sar objectFormat ((int i - 8) * 8)) 0xff))
                 [4..<6] (info_container_array d);
          c2 = fold (\<lambda>i a. store a i
                   (js_and (js_sar objectCompressedSize ((int i - int MTP_CONTAINER_ARRAY_LEN) * 8)) 0xff))
                 [8..<MTP_CONTAINER_ARRAY_LEN] c1;
          c3 = store c2 13 0x30;
          c4 = fold (\<lambda>i a. store a i (js_and (js_sar associationType ((int i - 42) * 8)) 0xff))
                 [42..<44] c3;
          c5 = fold (\<lambda>i a. store a i (js_and (js_sar associationDesc ((int i - 44) * 8)) 0xff))
                 [44..<48] c4
      in d\<lparr>filename_array := fa, fileName := filename, info_container_array := c5\<rparr>)"

text \<open>Class \<open>storageInfoDataset\<close>. \<open>baseAddr\<close> does not exist before
  \<open>initDatasetFromMTPContainer\<close> has run.\<close>

record storageInfoDataset =
  storageID :: int
  storageSize :: int
  usedSpace :: int
  freeSpace :: int
  storageDescLength :: int
  storageDescription :: string
  objectInfoObjects :: "ObjectInfoDataset list"
  baseAddr :: "nat option"

definition new_storageInfoDataset :: "int \<Rightarrow> storageInfoDataset" where
  "new_storageInfoDataset str_id =
     \<lparr> storageID = str_id, storageSize = 0, usedSpace = 0, freeSpace = 0,
       storageDescLength = 0, storageDescription = [], objectInfoObjects = [],
       baseAddr = None \<rparr>"

text \<open>Four bytes from \<open>base\<close> combined with \<open>|\<close> and \<open><<\<close>, as the driver reads every
  32-bit field.\<close>

definition rd32 :: "u8 list \<Rightarrow> nat \<Rightarrow> int" where
  "rd32 buf base =
     js_or (js_or (js_or (rd buf base) (js_shl (rd buf (base + 1)) 8))
                  (js_shl (rd buf (base + 2)) 16))
           (js_shl (rd buf (base + 3)) 24)"

definition initDatasetFromMTPContainer :: "u8 list \<Rightarrow> storageInfoDataset \<Rightarrow> storageInfoDataset" where
  "initDatasetFromMTPContainer receivedBuf s =
     (let storageSize' = fold (\<lambda>i acc. js_or acc (js_shl (rd receivedBuf i) ((int i - 10) * 8)))
                           [18..<26] 0;
          freeSpace' = fold (\<lambda>i acc. js_or acc (js_shl (rd receivedBuf i) ((int i - 18) * 8)))
                         [26..<34] 0
      in s\<lparr> storageSize := storageSize',
            freeSpace := freeSpace',
            usedSpace := storageSize' - freeSpace',
            baseAddr := Some 38,
            storageDescLength := rd32 receivedBuf 38 \<rparr>)"

section \<open>The USB host and promises\<close>

text \<open>
  The WebUSB device is an oracle and a log. \<open>inbound u k\<close> is how the \<open>k\<close>-th call of
  \<open>transferIn\<close> settles: with data, with a rejection, or never (the driver sets no
  timeout). \<open>out_ok u k\<close> says whether the \<open>k\<close>-th call of \<open>transferOut\<close> is fulfilled;
  \<open>outbound\<close> lists the buffers handed to \<open>transferOut\<close>, in order.
\<close>

datatype xfer = Data "u8 list" | Failed | Stalled

record usb =
  inbound :: "nat \<Rightarrow> xfer"
  in_count :: nat
  out_ok :: "nat \<Rightarrow> bool"
  outbound :: "u8 list list"

definition transferIn :: "usb \<Rightarrow> xfer \<times> usb" where
  "transferIn u = (inbound u (in_count u), u\<lparr>in_count := Suc (in_count u)\<rparr>)"

definition transferOut :: "usb \<Rightarrow> u8 list \<Rightarrow> bool \<times> usb" where
  "transferOut u packet = (out_ok u (length (outbound u)), u\<lparr>outbound := outbound u @ [packet]\<rparr>)"

text \<open>What becomes of a promise once everything has settled. The values the driver
  resolves with are a flag, or a pair of \<open>true\<close> and a payload.\<close>

datatype 'a promise = Resolved 'a | Rejected | Pending

datatype 'a reply = Flag bool | Tuple bool 'a

text \<open>\<open>getPacket\<close> resolves with the bytes read. It has no rejection handler: when the
  transfer is rejected, or never settles, its promise stays pending (\<open>None\<close>).\<close>

definition getPacket :: "usb \<Rightarrow> u8 list option \<times> usb" where
  "getPacket u = (case transferIn u of
       (Data bytes, u') \<Rightarrow> (Some bytes, u')
     | (Failed, u') \<Rightarrow> (None, u')
     | (Stalled, u') \<Rightarrow> (None, u'))"

text \<open>\<open>receivePackets\<close> starts \<open>no_of_packets\<close> reads at once and resolves, with the
  packets in the order of the reads, when all of them have resolved.\<close>

fun receivePackets :: "usb \<Rightarrow> nat \<Rightarrow> u8 list list option \<times> usb" where
  "receivePackets u 0 = (Some [], u)"
| "receivePackets u (Suc n) =
     (case getPacket u of (r, u1) \<Rightarrow>
        (case receivePackets u1 n of (rs, u2) \<Rightarrow>
           (case (r, rs) of
              (Some p, Some ps) \<Rightarrow> (Some (p # ps), u2)
            | _ \<Rightarrow> (None, u2))))"

text \<open>\<open>sendPacket\<close>: one \<open>transferOut\<close> between two pauses of 10 ms.\<close>

definition sendPacket :: "usb \<Rightarrow> u8 list \<Rightarrow> bool \<times> usb" where
  "sendPacket u packet = transferOut u packet"

text \<open>The code field of a received packet, \<open>(buf[7] << 8) | buf[6]\<close>.\<close>

definition code_of :: "u8 list \<Rightarrow> int" where
  "code_of buf = js_or (js_shl (rd buf 7) 8) (rd buf 6)"

section \<open>Class MTPDevice\<close>

text \<open>The list \<open>objectInfoObjects\<close> of the device itself (never used by the driver) is
  \<open>device_objectInfoObjects\<close>; the handle \<open>device\<close> is the \<open>usb\<close> value passed along.\<close>

record MTPDevice =
  interfaceNumber :: int
  endpointIn :: int
  endpointOut :: int
  sessionOpen :: bool
  sessionID :: int
  storageInfoObjects :: "storageInfoDataset list"
  device_objectInfoObjects :: "ObjectInfoDataset list"
  transactionID :: int
  SerialNumber :: "string option"

definition new_MTPDevice :: MTPDevice where
  "new_MTPDevice =
     \<lparr> interfaceNumber = 0, endpointIn = 0, endpointOut = 0, sessionOpen = False,
       sessionID = 1, storageInfoObjects = [], device_objectInfoObjects = [],
       transactionID = 0, SerialNumber = None \<rparr>"

text \<open>A number that may be \<open>undefined\<close>, as an operand of a bit operator.\<close>

definition num :: "int option \<Rightarrow> int" where
  "num v = (case v of None \<Rightarrow> 0 | Some x \<Rightarrow> x)"

subsection \<open>openSession\<close>

text \<open>
  The read is started first, then the Command is written. A rejected read reaches the
  handler at the end of the chain and resolves \<open>false\<close>. When the write fails the
  \<open>await\<close> throws and the call rejects.
\<close>

definition openSession :: "MTPDevice \<Rightarrow> usb \<Rightarrow> bool promise \<times> MTPDevice \<times> usb" where
  "openSession dev u =
     (case transferIn u of (r, u1) \<Rightarrow>
      (case sendPacket u1
              (command_packet 1 MTP_OPEN_SESSION (transactionID dev) (sessionID dev) 0 0 0 0) of
         (ok, u2) \<Rightarrow>
           (case (case r of
                    Data receivedBuffer \<Rightarrow>
                      if code_of receivedBuffer = MTP_OK \<or> code_of receivedBuffer = SESSION_ALREADY_OPEN
                      then (Resolved True, dev\<lparr>sessionOpen := True\<rparr>)
                      else (Resolved False, dev\<lparr>sessionOpen := False\<rparr>)
                  | Failed \<Rightarrow> (Resolved False, dev)
                  | Stalled \<Rightarrow> (Pending, dev)) of
              (res, dev') \<Rightarrow> (if ok then res else Rejected, dev', u2))))"

subsection \<open>getStorageIDS\<close>

text \<open>The handler of the two packets. A missing packet would make \<open>receivedPackets[0][7]\<close>
  throw, which the handler at the end of the chain turns into \<open>false\<close>.\<close>

definition getStorageIDS_then :: "u8 list list \<Rightarrow> MTPDevice \<Rightarrow> bool promise \<times> MTPDevice" where
  "getStorageIDS_then receivedPackets dev =
     (case receivedPackets of
        p0 # p1 # _ \<Rightarrow>
          (let storageIDBuffer = (if code_of p0 = MTP_GET_STORAGE_IDS then p0 else p1);
               MTP_OKBuffer = (if code_of p0 = MTP_GET_STORAGE_IDS then p1 else p0)
           in if code_of MTP_OKBuffer = MTP_OK
              then (let numberOfStorageIDS = rd32 storageIDBuffer 12;
                        readBase = 16
                    in (Resolved True,
                        dev\<lparr>storageInfoObjects :=
                          fold (\<lambda>i objs. objs @ [new_storageInfoDataset (rd32 storageIDBuffer (readBase + i * 4))])
                            [0..<nat numberOfStorageIDS] []\<rparr>))
              else (Resolved False, dev))
      | _ \<Rightarrow> (Resolved False, dev))"

definition getStorageIDS :: "MTPDevice \<Rightarrow> usb \<Rightarrow> bool promise \<times> MTPDevice \<times> usb" where
  "getStorageIDS dev u =
     (case receivePackets u 2 of (results, u1) \<Rightarrow>
      (let dev1 = dev\<lparr>transactionID := transactionID dev + 1\<rparr> in
       (case sendPacket u1
               (container_array (pack (setTransactionID (transactionID dev1)
                  (setOperation MTP_GET_STORAGE_IDS
                    (setTransactionType MTP_PACKET_TYPE_COMMAND (new_mtpPacket 0)))))) of
          (ok, u2) \<Rightarrow>
            (case (case results of
                     None \<Rightarrow> (Pending, dev1)
                   | Some receivedPackets \<Rightarrow> getStorageIDS_then receivedPackets dev1) of
               (res, dev2) \<Rightarrow> (if ok then res else Rejected, dev2, u2)))))"

subsection \<open>deleteFile\<close>

definition deleteFile :: "MTPDevice \<Rightarrow> ObjectInfoDataset \<Rightarrow> usb \<Rightarrow> bool promise \<times> MTPDevice \<times> usb" where
  "deleteFile dev fileObject u =
     (case receivePackets u 1 of (result, u1) \<Rightarrow>
      (let dev1 = dev\<lparr>transactionID := transactionID dev + 1\<rparr> in
       (case sendPacket u1
               (container_array (pack (setParams (num (fileID fileObject)) 0 0 0 0
                  (setOperation MTP_DELETE_OBJECT
                    (setTransactionType MTP_PACKET_TYPE_COMMAND
                      (setTransactionID (transactionID dev1) (new_mtpPacket 2))))))) of
          (ok, u2) \<Rightarrow>
            (let res = (case result of
                          None \<Rightarrow> Pending
                        | Some receivedPackets \<Rightarrow>
                            (case receivedPackets of
                               p0 # _ \<Rightarrow> if code_of p0 = MTP_OK then Resolved True else Resolved False
                             | [] \<Rightarrow> Resolved False))
             in (if ok then res else Rejected, dev1, u2)))))"

subsection \<open>uploadFileInfo\<close>

text \<open>
  The handle is assembled with \<open>>>\<close> from bytes 20 to 23 of the packet that was not
  taken for the response. The rejection handler hangs on the outer promise, which never
  rejects: when the handler of the packets throws, the promise returned stays pending.
\<close>

definition uploadFileInfo_then :: "u8 list list \<Rightarrow> int reply promise" where
  "uploadFileInfo_then receivedPackets =
     (case receivedPackets of
        p0 # p1 # _ \<Rightarrow>
          (let objectInfoBuffer = (if code_of p0 = SEND_OBJECT_INFO then p0 else p1);
               MTP_OKBuffer = (if code_of p0 = SEND_OBJECT_INFO then p1 else p0)
           in if code_of MTP_OKBuffer = MTP_OK
              then Resolved (Tuple True
                     (fold (\<lambda>i newObjectID.
                              js_or newObjectID
                                (js_and (js_sar (rd objectInfoBuffer i) ((int i - 20) * 8)) 0xff))
                        [20..<24] 0))
              else Pending)
      | _ \<Rightarrow> Pending)"

definition uploadFileInfo ::
  "MTPDevice \<Rightarrow> storageInfoDataset \<Rightarrow> string \<Rightarrow> int \<Rightarrow> usb \<Rightarrow> int reply promise \<times> MTPDevice \<times> usb" where
  "uploadFileInfo dev storageObject filename fileSize u =
     (case receivePackets u 2 of (result, u1) \<Rightarrow>
      (let dev1 = dev\<lparr>transactionID := transactionID dev + 1\<rparr> in
       (case sendPacket u1
               (container_array (pack (setParams (storageID storageObject) PLACE_IN_ROOT 0 0 0
                  (setTransactionType MTP_PACKET_TYPE_COMMAND
                    (setTransactionID (transactionID dev1)
                      (setOperation SEND_OBJECT_INFO (new_mtpPacket 2))))))) of
          (ok1, u2) \<Rightarrow>
            if \<not> ok1 then (Rejected, dev1, u2)
            else
              (let fileInfo = initContainer UNDEFINED_OBJECT_FORMAT fileSize 0 0 filename
                                (new_ObjectInfoDataset None);
                   sendObjInfo2 = pack ((setTransactionType CONTAINER_TYPE_DATA
                       (setParams 0 0 0 0 0
                         (setTransactionID (transactionID dev1)
                           (setOperation SEND_OBJECT_INFO (new_mtpPacket 0)))))
                       \<lparr>containerArrayLength :=
                          MTP_CONTAINER_ARRAY_LEN + length (info_container_array fileInfo)
                          + length (filename_array fileInfo) + length (dateCreateLength fileInfo)
                          + length (dateCreateArray fileInfo) + length (dateModLength fileInfo)
                          + length (dateModArray fileInfo) + length (keywords_array fileInfo)\<rparr>)
               in (case sendPacket u2
                         (container_array sendObjInfo2 @ info_container_array fileInfo
                          @ filename_array fileInfo @ dateCreateLength fileInfo
                          @ dateCreateArray fileInfo @ dateModLength fileInfo
                          @ dateModArray fileInfo @ keywords_array fileInfo) of
                     (ok2, u3) \<Rightarrow>
                       (if ok2 then (case result of
                                       None \<Rightarrow> Pending
                                     | Some receivedPackets \<Rightarrow> uploadFileInfo_then receivedPackets)
                        else Rejected, dev1, u3))))))"

subsection \<open>uploadFile\<close>

text \<open>The loop that writes the Data phase; \<open>i\<close> is the offset reached. It stops when a
  write fails.\<close>

function uploadFile_loop :: "u8 list \<Rightarrow> u8 list \<Rightarrow> nat \<Rightarrow> usb \<Rightarrow> bool \<times> usb" where
  "uploadFile_loop header fileBytes i u =
     (if i < length fileBytes
      then (let endi = (if i + MTP_PACKET_MAX_SIZE > length fileBytes then length fileBytes
                        else if i = 0 then i + 500 else i + MTP_PACKET_MAX_SIZE);
                sliced = take (endi - i) (drop i fileBytes)
            in (case sendPacket u (if i = 0 then header @ sliced else sliced) of
                  (ok, u') \<Rightarrow> if ok then uploadFile_loop header fileBytes endi u' else (False, u')))
      else (True, u))"
  by pat_completeness auto
termination
  by (relation "measure (\<lambda>(header, fileBytes, i, u). length fileBytes - i)")
     (auto simp add: MTP_PACKET_MAX_SIZE_def split: if_splits)

declare uploadFile_loop.simps [simp del]

definition uploadFile :: "MTPDevice \<Rightarrow> u8 list \<Rightarrow> usb \<Rightarrow> bool promise \<times> MTPDevice \<times> usb" where
  "uploadFile dev fileBytes u =
     (case receivePackets u 2 of (result, u1) \<Rightarrow>
      (let dev1 = dev\<lparr>transactionID := transactionID dev + 1\<rparr> in
       (case sendPacket u1
               (container_array (pack (setParams 0 0 0 0 0
                  (setOperation SEND_OBJECT
                    (setTransactionID (transactionID dev1)
                      (setTransactionType MTP_PACKET_TYPE_COMMAND (new_mtpPacket 0))))))) of
          (ok1, u2) \<Rightarrow>
            if \<not> ok1 then (Rejected, dev1, u2)
            else
              (let reqSendObject2 = pack ((setTransactionType CONTAINER_TYPE_DATA
                       (setParams 0 0 0 0 0
                         (setTransactionID (transactionID dev1)
                           (setOperation SEND_OBJECT (new_mtpPacket 0)))))
                       \<lparr>containerArrayLength := MTP_CONTAINER_ARRAY_LEN + length fileBytes\<rparr>)
               in (case uploadFile_loop (container_array reqSendObject2) fileBytes 0 u2 of
                     (ok2, u3) \<Rightarrow>
                       (if ok2 then (case result of
                                       None \<Rightarrow> Pending
                                     | Some receivedPackets \<Rightarrow>
                                         (case receivedPackets of
                                            p0 # _ \<Rightarrow> if code_of p0 = MTP_OK then Resolved True
                                                      else Resolved False
                                          | [] \<Rightarrow> Resolved False))
                        else Rejected, dev1, u3))))))"

subsection \<open>downloadAudioFile\<close>

text \<open>
  The record the caller passes as \<open>lenaDevice\<close> (class \<open>deviceSettings\<close>), with the two
  counters the download writes. The progress text (\<open>toFixed\<close> of a floating-point
  quotient) is for display only and is left out. The collection \<open>fileblobs\<close> of the
  local database is the list of the blobs added, each with its \<open>blobNumber\<close>.
\<close>

record deviceSettings =
  audioCopyBytes :: int
  audioCopyTotalBytes :: int

record download =
  objectBuffer :: "u8 list"
  blobCount :: int
  fileblobs :: "(int \<times> u8 list) list"
  lena :: deviceSettings

datatype flow = Completed | Thrown | Hung

text \<open>\<open>Math.ceil\<close> of a quotient; the division by 512 is exact in floating point.\<close>

definition Math_ceil :: "rat \<Rightarrow> int" where
  "Math_ceil x = \<lceil>x\<rceil>"

text \<open>The loop over \<open>range\<close>, by the number of reads still to make. A rejected read
  throws out of the loop; a read that never settles leaves the loop waiting.\<close>

fun download_loop :: "nat \<Rightarrow> download \<Rightarrow> usb \<Rightarrow> flow \<times> download \<times> usb" where
  "download_loop 0 st u = (Completed, st, u)"
| "download_loop (Suc k) st u =
     (case transferIn u of
        (Data data, u') \<Rightarrow>
          (let ob = objectBuffer st @ data;
               bc = blobCount st + 1
           in download_loop k
                (if bc mod 50000 = 0
                 then st\<lparr> objectBuffer := [], blobCount := bc,
                          fileblobs := fileblobs st @ [(bc, ob)],
                          lena := (lena st)\<lparr>audioCopyBytes := audioCopyBytes (lena st) + int (length ob)\<rparr> \<rparr>
                 else st\<lparr> objectBuffer := ob, blobCount := bc \<rparr>)
                u')
      | (Failed, u') \<Rightarrow> (Thrown, st, u')
      | (Stalled, u') \<Rightarrow> (Hung, st, u'))"

text \<open>
  The handler of the first packet. Writing \<open>audioCopyTotalBytes\<close> throws when no
  record was passed, and \<open>Array(n)\<close> throws for a negative \<open>n\<close>; both end in the handler
  that resolves \<open>false\<close>.
\<close>

definition downloadAudioFile_then ::
  "u8 list \<Rightarrow> deviceSettings option \<Rightarrow> (int \<times> u8 list) list \<Rightarrow> usb
     \<Rightarrow> u8 list reply promise \<times> deviceSettings option \<times> (int \<times> u8 list) list \<times> usb" where
  "downloadAudioFile_then firstObjectBuffer lenaDevice blobs u =
     (if code_of firstObjectBuffer = GET_OBJECT
      then
        (let fileLength = rd32 firstObjectBuffer 0 - int MTP_CONTAINER_ARRAY_LEN;
             ob = drop MTP_CONTAINER_ARRAY_LEN firstObjectBuffer;
             numberOfPacketsToBeReceived =
               Math_ceil (of_int (fileLength - int (length ob)) / of_nat MTP_PACKET_MAX_SIZE)
         in (case lenaDevice of
               None \<Rightarrow> (Resolved (Flag False), None, blobs, u)
             | Some l \<Rightarrow>
                 (let l1 = l\<lparr>audioCopyTotalBytes := fileLength\<rparr> in
                  if numberOfPacketsToBeReceived < 0
                  then (Resolved (Flag False), Some l1, blobs, u)
                  else
                    (case download_loop (nat numberOfPacketsToBeReceived)
                            \<lparr>objectBuffer = ob, blobCount = 0, fileblobs = blobs, lena = l1\<rparr> u of
                       (Completed, st, u1) \<Rightarrow>
                         (let blobs1 = fileblobs st @ [(blobCount st, objectBuffer st)];
                              l2 = (lena st)\<lparr>audioCopyBytes :=
                                      audioCopyBytes (lena st) + int (length (objectBuffer st))\<rparr>
                          in (case transferIn u1 of
                                (Data data, u2) \<Rightarrow>
                                  (Resolved (Tuple True []),
                                   Some (l2\<lparr>audioCopyBytes := audioCopyBytes l2 + 0\<rparr>),
                                   blobs1 @ [(blobCount st + 1, [])], u2)
                              | (Failed, u2) \<Rightarrow> (Resolved (Flag False), Some l2, blobs1, u2)
                              | (Stalled, u2) \<Rightarrow> (Pending, Some l2, blobs1, u2)))
                     | (Thrown, st, u1) \<Rightarrow> (Resolved (Flag False), Some (lena st), fileblobs st, u1)
                     | (Hung, st, u1) \<Rightarrow> (Pending, Some (lena st), fileblobs st, u1)))))
      else (Resolved (Flag False), lenaDevice, blobs, u))"

definition downloadAudioFile ::
  "MTPDevice \<Rightarrow> ObjectInfoDataset \<Rightarrow> deviceSettings option \<Rightarrow> (int \<times> u8 list) list \<Rightarrow> usb
     \<Rightarrow> u8 list reply promise \<times> MTPDevice \<times> deviceSettings option \<times> (int \<times> u8 list) list \<times> usb" where
  "downloadAudioFile dev fileObject lenaDevice blobs u =
     (case receivePackets u 1 of (results, u1) \<Rightarrow>
      (let dev1 = dev\<lparr>transactionID := transactionID dev + 1\<rparr> in
       (case sendPacket u1
               (container_array (pack (setParams (num (fileID fileObject)) 0 0 0 0
                  (setOperation GET_OBJECT
                    (setTransactionType MTP_PACKET_TYPE_COMMAND
                      (setTransactionID (transactionID dev1) (new_mtpPacket 1))))))) of
          (ok, u2) \<Rightarrow>
            (case (case results of
                     None \<Rightarrow> (Pending, lenaDevice, blobs, u2)
                   | Some receivedPackets \<Rightarrow>
                       (case receivedPackets of
                          firstObjectBuffer # _ \<Rightarrow>
                            downloadAudioFile_then firstObjectBuffer lenaDevice blobs u2
                        | [] \<Rightarrow> (Resolved (Flag False), lenaDevice, blobs, u2))) of
               (res, lenaDevice', blobs', u3) \<Rightarrow>
                 (if ok then res else Rejected, dev1, lenaDevice', blobs', u3)))))"

section \<open>The configuration file: stringToObj\<close>

text \<open>\<open>string.split(/\r\n|\r|\n/g)\<close>: a carriage return takes a line feed that follows
  it into the same separator.\<close>

fun split_lines :: "string \<Rightarrow> string list" where
  "split_lines [] = [[]]"
| "split_lines (c # cs) =
     (if c = CHR 0x0D
      then (case cs of
              d # ds \<Rightarrow> if d = CHR 0x0A then [] # split_lines ds else [] # split_lines cs
            | [] \<Rightarrow> [] # split_lines cs)
      else if c = CHR 0x0A then [] # split_lines cs
      else (case split_lines cs of l # ls \<Rightarrow> (c # l) # ls | [] \<Rightarrow> [[c]]))"

text \<open>\<open>line.split("=")\<close>.\<close>

fun split_on :: "char \<Rightarrow> string \<Rightarrow> string list" where
  "split_on sep [] = [[]]"
| "split_on sep (c # cs) =
     (if c = sep then [] # split_on sep cs
      else (case split_on sep cs of l # ls \<Rightarrow> (c # l) # ls | [] \<Rightarrow> [[c]]))"

text \<open>
  \<open>obj[key] = value\<close> on an object made by \<open>{}\<close>: the key \<open>__proto__\<close> reaches the
  setter inherited from \<open>Object.prototype\<close>, which ignores a string, so no entry is made
  for it.
\<close>

definition set_property :: "(string \<rightharpoonup> string) \<Rightarrow> string \<Rightarrow> string \<Rightarrow> (string \<rightharpoonup> string)" where
  "set_property obj key val = (if key = ''__proto__'' then obj else obj(key \<mapsto> val))"

definition stringToObj :: "string \<Rightarrow> (string \<rightharpoonup> string)" where
  "stringToObj string =
     fold (\<lambda>line obj.
             (case split_on CHR ''='' line of
                k # v # _ \<Rightarrow> if v \<noteq> [] then set_property obj k v else obj
              | _ \<Rightarrow> obj))
       (split_lines string) Map.empty"


section \<open>The words of the specification, and inputs for examples\<close>

text \<open>The little-endian 32-bit integer at bytes \<open>base\<close> to \<open>base + 3\<close> of a packet, as an
  unsigned number.\<close>

definition le32_at :: "u8 list \<Rightarrow> nat \<Rightarrow> int" where
  "le32_at buf base = rd buf base + 256 * rd buf (base + 1) + 65536 * rd buf (base + 2)
      + 16777216 * rd buf (base + 3)"

text \<open>A host on which every write succeeds and the reads settle as listed, then stall.\<close>

definition usb_of :: "xfer list \<Rightarrow> usb" where
  "usb_of xs = \<lparr> inbound = (\<lambda>k. if k < length xs then xs ! k else Stalled), in_count = 0,
                 out_ok = (\<lambda>k. True), outbound = [] \<rparr>"

text \<open>A first Data packet of GetObject that declares \<open>0x80000200\<close> bytes and carries 500
  of them, and a short one that declares 1040 bytes and carries 4.\<close>

definition big_first :: "u8 list" where
  "big_first = [0x00, 0x02, 0x00, 0x80, 2, 0, 0x09, 0x10, 1, 0, 0, 0] @ replicate 500 0"

definition small_first :: "u8 list" where
  "small_first = [0x10, 0x04, 0x00, 0x00, 2, 0, 0x09, 0x10, 1, 0, 0, 0, 1, 2, 3, 4]"


text \<open>A full first Data packet of GetObject that declares 1040 bytes, \<open>12 + 1028\<close>, and
  carries 500 of them.\<close>

definition full_first :: "u8 list" where
  "full_first = [0x10, 0x04, 0x00, 0x00, 2, 0, 0x09, 0x10, 1, 0, 0, 0] @ replicate 500 1"

text \<open>The bytes that a read brings.\<close>

definition bytes_of :: "xfer \<Rightarrow> u8 list" where
  "bytes_of x = (case x of Data d \<Rightarrow> d | Failed \<Rightarrow> [] | Stalled \<Rightarrow> [])"

text \<open>A Response packet with code \<open>0x2001\<close> and no parameters.\<close>

definition ok_response :: "u8 list" where
  "ok_response = [0x0c, 0, 0, 0, 3, 0, 0x01, 0x20, 0, 0, 0, 0]"

text \<open>A device with an open session and one storage that lists one object, the file
  \<open>command.txt\<close> with handle 2.\<close>

definition command_txt :: ObjectInfoDataset where
  "command_txt = (new_ObjectInfoDataset (Some 2))\<lparr>fileName := ''command.txt''\<rparr>"

definition one_file_device :: MTPDevice where
  "one_file_device = new_MTPDevice\<lparr> sessionOpen := True, transactionID := 8,
      storageInfoObjects :=
        [(new_storageInfoDataset 0x00010001)\<lparr>objectInfoObjects := [command_txt]\<rparr>] \<rparr>"


text \<open>The Data packet of GetStorageIDs for the two storages \<open>0x00010001\<close> and
  \<open>0x00010002\<close>, and a Response packet with the code \<open>0x2002\<close>.\<close>

definition storage_ids_data :: "u8 list" where
  "storage_ids_data = [0x18, 0, 0, 0, 2, 0, 0x04, 0x10, 9, 0, 0, 0,
                       2, 0, 0, 0, 1, 0, 1, 0, 2, 0, 1, 0]"

definition error_response :: "u8 list" where
  "error_response = [0x0c, 0, 0, 0, 3, 0, 0x02, 0x20, 9, 0, 0, 0]"

text \<open>The little-endian 64-bit integer at bytes \<open>base\<close> to \<open>base + 7\<close>.\<close>

definition le64_at :: "u8 list \<Rightarrow> nat \<Rightarrow> int" where
  "le64_at buf base = le32_at buf base + 4294967296 * le32_at buf (base + 4)"

text \<open>
  A Data packet of GetStorageInfo: the 12-byte header, storage type 3, filesystem type
  2, access 0, a capacity of 8 GiB (\<open>0x200000000\<close>), 1 GiB free, the count of free
  objects and two empty strings.
\<close>

definition storage_info_data :: "u8 list" where
  "storage_info_data =
     [0x28, 0, 0, 0, 2, 0, 0x05, 0x10, 2, 0, 0, 0,
      3, 0, 2, 0, 0, 0,
      0, 0, 0, 0, 2, 0, 0, 0,
      0, 0, 0, 0x40, 0, 0, 0, 0,
      0xff, 0xff, 0xff, 0xff,
      0, 0]"

text \<open>A Response packet of SendObjectInfo with the code \<open>0x2001\<close> and the parameters
  storage \<open>0x00010001\<close>, parent \<open>0xFFFFFFFF\<close> and new handle \<open>0x00000100\<close>.\<close>

definition send_info_response :: "u8 list" where
  "send_info_response =
     [0x18, 0, 0, 0, 3, 0, 0x01, 0x20, 0x0a, 0, 0, 0,
      1, 0, 1, 0, 0xff, 0xff, 0xff, 0xff, 0, 1, 0, 0]"


text \<open>The two headers of SendObject as the specification lays them out: the Command
  packet, and the header of the Data phase for \<open>n\<close> bytes of payload.\<close>

definition upload_command :: "int \<Rightarrow> u8 list" where
  "upload_command tx = le_bytes 4 12 @ le_bytes 2 1 @ le_bytes 2 SEND_OBJECT @ le_bytes 4 tx"

definition upload_data_header :: "int \<Rightarrow> nat \<Rightarrow> u8 list" where
  "upload_data_header tx n =
     le_bytes 4 (12 + int n) @ le_bytes 2 2 @ le_bytes 2 SEND_OBJECT @ le_bytes 4 tx"


text \<open>
  A line of the configuration file in the words of the specification: the key is the
  text before the first \<open>=\<close>, the value the text between the first \<open>=\<close> and the next one
  (or the end of the line). A line is kept when it has an \<open>=\<close>, a non-empty value, and a
  key other than \<open>__proto__\<close>.
\<close>

definition key_of :: "string \<Rightarrow> string" where
  "key_of line = takeWhile (\<lambda>c. c \<noteq> CHR ''='') line"

definition value_of :: "string \<Rightarrow> string" where
  "value_of line = takeWhile (\<lambda>c. c \<noteq> CHR ''='') (tl (dropWhile (\<lambda>c. c \<noteq> CHR ''='') line))"

definition kept :: "string \<Rightarrow> bool" where
  "kept line = (CHR ''='' \<in> set line \<and> value_of line \<noteq> [] \<and> key_of line \<noteq> ''__proto__'')"

text \<open>The text \<open>SerialNumber=ABC123\r\nAudioLength=42\r\n\<close>.\<close>

definition config_example :: string where
  "config_example =
     ''SerialNumber=ABC123'' @ [CHR 0x0D, CHR 0x0A] @ ''AudioLength=42'' @ [CHR 0x0D, CHR 0x0A]"

section \<open>Bytes written by the bit operators\<close>

lemma byte_le:
  assumes "i < 4"
  shows "(word_of_int (js_and (js_sar v (int i * 8)) 0xff) :: u8) = word_of_int (v div 256 ^ i)"
proof -
  have m: "nat (int i * 8 mod 32) = 8 * i" using assms by auto
  have p: "(256::int) ^ i = 2 ^ (8 * i)" by (simp add: power_mult)
  have k: "(255::int) = mask 8" by (simp add: mask_eq_exp_minus_1)
  show ?thesis
    unfolding js_and_def js_sar_def ToInt32_def m p k
    by (rule bit_word_eqI) (use assms in \<open>auto simp add: bit_simps simp flip: drop_bit_eq_div\<close>)
qed

lemma h_and: "(word_of_int (js_and x 0xff) :: u8) = word_of_int x"
  using byte_le[of 0 x] by (simp add: js_sar_def js_and_def ToInt32_def)

lemma h_sar: "k < 4 \<Longrightarrow> (word_of_int (js_sar v (int k * 8)) :: u8) = word_of_int (v div 256 ^ k)"
  using byte_le[of k v] by (simp add: h_and)

lemma h_sar_c:
  "(word_of_int (js_sar v 0) :: u8) = word_of_int v"
  "(word_of_int (js_sar v 8) :: u8) = word_of_int (v div 256)"
  "(word_of_int (js_sar v 16) :: u8) = word_of_int (v div 65536)"
  "(word_of_int (js_sar v 24) :: u8) = word_of_int (v div 16777216)"
  using h_sar[of 0 v] h_sar[of 1 v] h_sar[of 2 v] h_sar[of 3 v] by simp_all

lemma store_len [simp]: "length (store a i v) = length a"
  by (simp add: store_def)

lemma store_nth: "j < length a \<Longrightarrow> store a i v ! j = (if i = j then word_of_int v else a ! j)"
  by (simp add: store_def)

lemma fold_store_len [simp]: "length (fold (\<lambda>i a. store a (g i) (f i)) xs arr) = length arr"
  by (induction xs arbitrary: arr) auto

lemma fold_store_nth:
  "j < length arr \<Longrightarrow> fold (\<lambda>i a. store a i (f i)) [lo..<hi] arr ! j =
     (if lo \<le> j \<and> j < hi then word_of_int (f j) else arr ! j)"
proof (induction hi)
  case 0
  then show ?case by simp
next
  case (Suc hi)
  then show ?case
    by (cases "lo \<le> hi") (auto simp add: store_nth less_Suc_eq)
qed

lemma fold_store_off_nth:
  "j < length arr \<Longrightarrow> fold (\<lambda>i a. store a (i + base) (f i)) [0..<k] arr ! j =
     (if base \<le> j \<and> j < base + k then word_of_int (f (j - base)) else arr ! j)"
proof (induction k)
  case 0
  then show ?case by auto
next
  case (Suc k)
  then show ?case by (auto simp add: store_nth less_Suc_eq)
qed

lemma le_bytes_len [simp]: "length (le_bytes k v) = k"
  by (simp add: le_bytes_def)

lemma le_bytes_nth: "i < k \<Longrightarrow> le_bytes k v ! i = word_of_int (v div 256 ^ i)"
  by (simp add: le_bytes_def)

lemma le_bytes_4:
  "le_bytes 4 v = [word_of_int v, word_of_int (v div 256), word_of_int (v div 65536),
                   word_of_int (v div 16777216)]"
  by (simp add: le_bytes_def upt_rec)

lemma le_bytes_2: "le_bytes 2 v = [word_of_int v, word_of_int (v div 256)]"
  by (simp add: le_bytes_def upt_rec)

lemma length_concat_le: "length (concat (map (le_bytes 4) xs)) = 4 * length xs"
  by (induction xs) simp_all

subsection \<open>setParams and pack\<close>

lemma put_param_len [simp]: "length (put_param base v arr) = length arr"
  by (simp add: put_param_def)

lemma put_param_nth:
  assumes "j < length arr"
  shows "put_param base v arr ! j =
     (if base \<le> j \<and> j < base + 4 then le_bytes 4 v ! (j - base) else arr ! j)"
proof (cases "base \<le> j \<and> j < base + 4")
  case True
  then have "j - base < 4" by arith
  then have "(word_of_int (js_and (js_sar v (int (j - base) * 8)) 0xff) :: u8)
               = le_bytes 4 v ! (j - base)"
    by (simp only: byte_le le_bytes_nth)
  with True assms show ?thesis
    unfolding put_param_def by (simp only: fold_store_off_nth if_True)
next
  case False
  with assms show ?thesis
    unfolding put_param_def by (simp only: fold_store_off_nth if_False)
qed

lemma put_param_in:
  "base + 4 \<le> length arr \<Longrightarrow>
     put_param base v arr = take base arr @ le_bytes 4 v @ drop (base + 4) arr"
  by (rule nth_equalityI) (auto simp add: put_param_nth nth_append)

lemma put_param_out: "length arr \<le> base \<Longrightarrow> put_param base v arr = arr"
  by (rule nth_equalityI) (auto simp add: put_param_nth)

lemma setParams_bytes:
  assumes "n \<le> 5"
  shows "put_param 16 p5 (put_param 12 p4 (put_param 8 p3 (put_param 4 p2
           (put_param 0 p1 (Uint8Array (n * 4))))))
         = concat (map (le_bytes 4) (take n [p1, p2, p3, p4, p5]))"
proof -
  from assms consider "n = 0" | "n = 1" | "n = 2" | "n = 3" | "n = 4" | "n = 5" by linarith
  then show ?thesis
    by cases (simp_all add: Uint8Array_def put_param_in put_param_out)
qed

text \<open>What \<open>pack\<close> writes when the container array has room for the 12-byte header and
  all parameter bytes.\<close>

lemma pack_bytes:
  assumes "length (container_array p) = containerArrayLength p"
    and "containerArrayLength p = parameterArrayLength p + 12"
    and "length (parameters_array p) = parameterArrayLength p"
  shows "container_array (pack p) =
           le_bytes 4 (int (containerArrayLength p)) @ le_bytes 2 (type p)
           @ le_bytes 2 (operation p) @ le_bytes 4 (transaction_id p) @ parameters_array p"
    (is "?l = ?r")
proof (rule nth_equalityI)
  show "length ?l = length ?r"
    using assms by (simp add: pack_def Let_def)
next
  fix j assume "j < length ?l"
  then have j: "j < parameterArrayLength p + 12"
    using assms by (simp add: pack_def Let_def)
  consider "j < 4" | "j = 4" | "j = 5" | "j = 6" | "j = 7"
    | "j = 8" | "j = 9" | "j = 10" | "j = 11"
    | k where "j = 12 + k" "k < parameterArrayLength p"
  proof -
    have "j < 4 \<or> j = 4 \<or> j = 5 \<or> j = 6 \<or> j = 7 \<or> j = 8 \<or> j = 9 \<or> j = 10 \<or> j = 11
          \<or> (j = 12 + (j - 12) \<and> j - 12 < parameterArrayLength p)"
      using j by arith
    then show ?thesis using that by blast
  qed
  then show "?l ! j = ?r ! j"
    using assms
    by cases
      (simp_all add: pack_def Let_def fold_store_nth store_nth nth_append le_bytes_nth
         h_and h_sar h_sar_c rd_def)
qed

section \<open>The Command packet\<close>

lemma command_packet_bytes:
  assumes "n \<le> 5"
  shows "command_packet n op tx p1 p2 p3 p4 p5 =
           le_bytes 4 (12 + 4 * int n) @ le_bytes 2 1 @ le_bytes 2 op @ le_bytes 4 tx
           @ concat (map (le_bytes 4) (take n [p1, p2, p3, p4, p5]))"
proof -
  let ?p = "setParams p1 p2 p3 p4 p5 (setTransactionID tx (setOperation op
       (setTransactionType MTP_PACKET_TYPE_COMMAND (new_mtpPacket n))))"
  note defs = setParams_def setTransactionID_def setOperation_def setTransactionType_def
    new_mtpPacket_def
  have 1: "length (container_array ?p) = containerArrayLength ?p"
    by (simp add: defs Uint8Array_def)
  have 2: "containerArrayLength ?p = parameterArrayLength ?p + 12"
    by (simp add: defs MTP_CONTAINER_ARRAY_LEN_def)
  have 3: "length (parameters_array ?p) = parameterArrayLength ?p"
    by (simp add: defs Uint8Array_def)
  have 4: "parameters_array ?p = concat (map (le_bytes 4) (take n [p1, p2, p3, p4, p5]))"
    using setParams_bytes[OF assms] by (simp add: defs)
  have 5: "containerArrayLength ?p = n * 4 + 12" "type ?p = 1" "operation ?p = op"
    "transaction_id ?p = tx"
    by (simp_all add: defs MTP_CONTAINER_ARRAY_LEN_def MTP_PACKET_TYPE_COMMAND_def)
  show ?thesis
    unfolding command_packet_def pack_bytes[OF 1 2 3] 4 5 by (simp add: algebra_simps)
qed

text \<open>
  Claim C1. For every operation code, transaction id and parameters, with a packet made
  for \<open>n \<le> 5\<close> parameters, the Command packet that \<open>setParams\<close> and \<open>pack\<close> produce is
  \<open>12 + 4 n\<close> bytes long: \<open>12 + 4 n\<close> in four little-endian bytes, the container type 1
  in two, the operation code in two, the transaction id in four, then the first \<open>n\<close>
  parameters in four little-endian bytes each, in order.
\<close>

theorem command_packet_layout:
  assumes "n \<le> 5"
  shows "command_packet n op tx p1 p2 p3 p4 p5 =
           le_bytes 4 (12 + 4 * int n) @ le_bytes 2 1 @ le_bytes 2 op @ le_bytes 4 tx
           @ concat (map (le_bytes 4) (take n [p1, p2, p3, p4, p5]))
         \<and> length (command_packet n op tx p1 p2 p3 p4 p5) = 12 + 4 * n"
proof -
  have "length (concat (map (le_bytes 4) (take n [p1, p2, p3, p4, p5]))) = 4 * n"
    using assms by (simp add: length_concat_le)
  with command_packet_bytes[OF assms, of op tx p1 p2 p3 p4 p5] show ?thesis by simp
qed

text \<open>The DeleteObject Command of the capture in the source: two parameters, handle 2,
  transaction 9.\<close>

theorem command_packet_layout_witness:
  "(2::nat) \<le> 5 \<and>
   command_packet 2 0x100b 9 2 0 0 0 0 =
     [0x14, 0, 0, 0, 1, 0, 0x0b, 0x10, 9, 0, 0, 0, 2, 0, 0, 0, 0, 0, 0, 0] \<and>
   length (command_packet 2 0x100b 9 2 0 0 0 0) = 12 + 4 * 2"
  using command_packet_layout[of 2 "0x100b" 9 2 0 0 0 0] by (simp add: le_bytes_4 le_bytes_2)

section \<open>Reading 32-bit fields\<close>

lemma rd_byte: "\<exists>w :: u8. rd buf i = uint w"
  by (auto simp add: rd_def intro: exI[of _ 0])

lemma rd_range: "0 \<le> rd buf i \<and> rd buf i < 256"
  using uint_lt2p[of "buf ! i"] by (auto simp add: rd_def)

lemma le32_concat:
  "uint (a::u8) + 256 * uint (b::u8) + 65536 * uint (c::u8) + 16777216 * uint (d::u8)
     = concat_bit 8 (uint a) (concat_bit 8 (uint b) (concat_bit 8 (uint c) (uint d)))"
proof -
  have t: "take_bit 8 (uint (w::u8)) = uint w" for w
    using uint_lt2p[of w] by (simp add: take_bit_int_eq_self)
  show ?thesis
    by (simp add: concat_bit_eq push_bit_eq_mult t)
qed

lemma js_rd32:
  "js_or (js_or (js_or (uint (a::u8)) (js_shl (uint (b::u8)) 8)) (js_shl (uint (c::u8)) 16))
         (js_shl (uint (d::u8)) 24)
   = signed_take_bit 31 (uint a + 256 * uint b + 65536 * uint c + 16777216 * uint d)"
  unfolding le32_concat js_or_def js_shl_def ToInt32_def
proof (rule bit_eqI)
  fix n
  show "bit (signed_take_bit 31
          (signed_take_bit 31
             (signed_take_bit 31
                (signed_take_bit 31
                   (signed_take_bit 31
                      (signed_take_bit 31 (uint a) OR
                       signed_take_bit 31
                         (signed_take_bit 31 (push_bit (nat (8 mod 32)) (signed_take_bit 31 (uint b)))))) OR
                 signed_take_bit 31
                   (signed_take_bit 31 (push_bit (nat (16 mod 32)) (signed_take_bit 31 (uint c)))))) OR
           signed_take_bit 31
             (signed_take_bit 31 (push_bit (nat (24 mod 32)) (signed_take_bit 31 (uint d))))))
        n
     = bit (signed_take_bit 31
          (concat_bit 8 (uint a) (concat_bit 8 (uint b) (concat_bit 8 (uint c) (uint d))))) n"
    by (cases "n < 31") (auto simp add: bit_simps min_def dest: bit_imp_le_length)
qed

text \<open>The driver's 32-bit read is the field read as a signed number.\<close>

lemma rd32_signed: "rd32 buf base = signed_take_bit 31 (le32_at buf base)"
proof -
  obtain a b c d :: u8 where "rd buf base = uint a" "rd buf (base + 1) = uint b"
    "rd buf (base + 2) = uint c" "rd buf (base + 3) = uint d"
    using rd_byte by metis
  then show ?thesis by (simp add: rd32_def le32_at_def js_rd32)
qed

lemma le32_at_range: "0 \<le> le32_at buf base \<and> le32_at buf base < 2 ^ 32"
  using rd_range[of buf base] rd_range[of buf "base + 1"] rd_range[of buf "base + 2"]
    rd_range[of buf "base + 3"]
  unfolding le32_at_def by simp

lemma rd32_small: "le32_at buf base < 2 ^ 31 \<Longrightarrow> rd32 buf base = le32_at buf base"
  using le32_at_range[of buf base]
  by (simp add: rd32_signed signed_take_bit_int_eq_self)

text \<open>The signed number still holds the field: modulo \<open>2 ^ 32\<close> it is the unsigned one.\<close>

lemma ToInt32_le32_at: "ToInt32 (le32_at buf base) mod 2 ^ 32 = le32_at buf base"
proof -
  have "take_bit 32 (signed_take_bit 31 (le32_at buf base)) = take_bit 32 (le32_at buf base)"
    by (rule take_bit_signed_take_bit) simp
  also have "\<dots> = le32_at buf base"
    using le32_at_range[of buf base] by (simp add: take_bit_int_eq_self)
  finally show ?thesis by (simp add: ToInt32_def take_bit_eq_mod)
qed

section \<open>Reads and writes on the host\<close>

lemma receive_one:
  "inbound u (in_count u) = Data p \<Longrightarrow>
     receivePackets u (Suc 0) = (Some [p], u\<lparr>in_count := Suc (in_count u)\<rparr>)"
  by (simp add: getPacket_def transferIn_def)

lemma receive_two:
  "inbound u (in_count u) = Data p0 \<Longrightarrow> inbound u (Suc (in_count u)) = Data p1 \<Longrightarrow>
     receivePackets u (Suc (Suc 0)) = (Some [p0, p1], u\<lparr>in_count := Suc (Suc (in_count u))\<rparr>)"
  by (simp add: getPacket_def transferIn_def)

section \<open>The large-object download\<close>

lemma ceil_512: "\<lceil>of_int d / (512::rat)\<rceil> = - ((- d) div 512)"
  using ceiling_divide_eq_div[of d 512, where 'a = rat] by simp

lemma Math_ceil_div: "Math_ceil (of_int x / of_nat MTP_PACKET_MAX_SIZE) = - ((- x) div 512)"
  unfolding Math_ceil_def MTP_PACKET_MAX_SIZE_def of_nat_numeral by (rule ceil_512)

lemma ceil_nonneg:
  assumes "- 512 < (d::int)"
  shows "0 \<le> - ((- d) div 512)"
proof (cases "- d < 0")
  case True
  then have "(- d) div 512 < 0" by (rule div_neg_pos_less0) simp
  then show ?thesis by simp
next
  case False
  then have "(- d) div 512 = 0" using assms by (intro div_pos_pos_trivial) simp_all
  then show ?thesis by simp
qed

lemma Math_ceil_nat:
  assumes "- 512 < (d::int)"
  shows "Math_ceil (of_int d / of_nat MTP_PACKET_MAX_SIZE) = int (nat \<lceil>of_int d / (512::rat)\<rceil>)"
  unfolding Math_ceil_div ceil_512 using ceil_nonneg[OF assms] by simp

text \<open>When the next \<open>k\<close> reads bring data, the loop makes exactly \<open>k\<close> reads and
  completes; \<open>blobCount\<close> has counted them, and the blobs added together with the buffer
  hold what they held before and the bytes of those \<open>k\<close> packets, in order.\<close>

lemma download_loop_run:
  assumes "\<forall>j<k. \<exists>d. inbound u (in_count u + j) = Data d"
  shows "\<exists>st'. download_loop k st u = (Completed, st', u\<lparr>in_count := in_count u + k\<rparr>)
               \<and> blobCount st' = blobCount st + int k
               \<and> concat (map snd (fileblobs st')) @ objectBuffer st'
                   = concat (map snd (fileblobs st)) @ objectBuffer st
                       @ concat (map (\<lambda>j. bytes_of (inbound u (in_count u + j))) [0..<k])"
  using assms
proof (induction k arbitrary: st u)
  case 0
  then show ?case by simp
next
  case (Suc k)
  from Suc.prems obtain d where d: "inbound u (in_count u) = Data d"
    by (metis add.right_neutral zero_less_Suc)
  let ?u = "u\<lparr>in_count := Suc (in_count u)\<rparr>"
  have "\<forall>j<k. \<exists>d. inbound ?u (in_count ?u + j) = Data d"
  proof (intro allI impI)
    fix j assume "j < k"
    then have "Suc j < Suc k" by simp
    with Suc.prems obtain d' where "inbound u (in_count u + Suc j) = Data d'" by blast
    then show "\<exists>d. inbound ?u (in_count ?u + j) = Data d" by simp
  qed
  note ih = Suc.IH[OF this]
  let ?st = "if (blobCount st + 1) mod 50000 = 0
             then st\<lparr> objectBuffer := [], blobCount := blobCount st + 1,
                      fileblobs := fileblobs st @ [(blobCount st + 1, objectBuffer st @ d)],
                      lena := (lena st)\<lparr>audioCopyBytes :=
                                audioCopyBytes (lena st) + int (length (objectBuffer st @ d))\<rparr> \<rparr>
             else st\<lparr> objectBuffer := objectBuffer st @ d, blobCount := blobCount st + 1 \<rparr>"
  from ih[of ?st] obtain st' where
    l: "download_loop k ?st ?u = (Completed, st', ?u\<lparr>in_count := in_count ?u + k\<rparr>)"
    and b: "blobCount st' = blobCount ?st + int k"
    and c: "concat (map snd (fileblobs st')) @ objectBuffer st'
              = concat (map snd (fileblobs ?st)) @ objectBuffer ?st
                  @ concat (map (\<lambda>j. bytes_of (inbound ?u (in_count ?u + j))) [0..<k])"
    by blast
  have b': "blobCount ?st = blobCount st + 1" by simp
  have s: "concat (map snd (fileblobs ?st)) @ objectBuffer ?st
             = concat (map snd (fileblobs st)) @ objectBuffer st @ d" by simp
  have r: "map (\<lambda>j. bytes_of (inbound u (in_count u + j))) [0..<Suc k]
             = d # map (\<lambda>j. bytes_of (inbound ?u (in_count ?u + j))) [0..<k]"
    unfolding upt_conv_Cons[OF zero_less_Suc] map_Suc_upt[symmetric]
    by (simp add: d bytes_of_def o_def)
  have e: "download_loop (Suc k) st u = download_loop k ?st ?u"
    by (simp add: transferIn_def d Let_def)
  have "concat (map snd (fileblobs st')) @ objectBuffer st'
          = concat (map snd (fileblobs st)) @ objectBuffer st
              @ concat (map (\<lambda>j. bytes_of (inbound u (in_count u + j))) [0..<Suc k])"
    unfolding r c using s by simp
  with l b b' e show ?case by simp
qed

lemma code_big: "code_of big_first = GET_OBJECT"
  by (simp add: big_first_def code_of_def rd_def js_or_def js_shl_def ToInt32_def GET_OBJECT_def)

lemma le_big: "le32_at big_first 0 = 2147484160"
  by (simp add: big_first_def le32_at_def rd_def)

lemma rd_big: "rd32 big_first 0 = - 2147483136"
  by (simp add: rd32_signed le_big)

text \<open>
  A header length of \<open>2 ^ 31\<close> or more is read as a negative number. The first packet
  \<open>big_first\<close> is a full 512-byte Data packet of GetObject whose header declares
  \<open>0x80000200\<close> bytes, so that 4194304 reads of the loop are due. The driver reads the
  length with \<open>|\<close> and \<open><<\<close>, gets a negative count, \<open>Array(n)\<close> throws, and the promise
  resolves \<open>false\<close> after the first read alone, although every further read would have
  brought data.
\<close>

lemma downloadAudioFile_length_2GiB:
  "code_of big_first = GET_OBJECT \<and> length big_first = 512
   \<and> \<lceil>of_int (le32_at big_first 0 - 12 - int (length (drop 12 big_first))) / (512::rat)\<rceil> = 4194304
   \<and> (case downloadAudioFile new_MTPDevice (new_ObjectInfoDataset (Some 1))
              (Some \<lparr>audioCopyBytes = 0, audioCopyTotalBytes = 0\<rparr>) []
              \<lparr> inbound = (\<lambda>k. if k = 0 then Data big_first else Data (replicate 512 0)),
                in_count = 0, out_ok = (\<lambda>k. True), outbound = [] \<rparr> of
         (res, dev', l', blobs', u') \<Rightarrow> res = Resolved (Flag False) \<and> in_count u' = 1)"
proof -
  have pl: "length (drop 12 big_first) = 500" by (simp add: big_first_def)
  have d: "le32_at big_first 0 - 12 - int (length (drop 12 big_first)) = 2147483648"
    unfolding le_big pl by simp
  have c: "\<lceil>of_int (le32_at big_first 0 - 12 - int (length (drop 12 big_first))) / (512::rat)\<rceil>
             = 4194304"
    unfolding d ceil_512 by simp
  have m: "Math_ceil (of_int (rd32 big_first 0 - int MTP_CONTAINER_ARRAY_LEN
               - int (length (drop MTP_CONTAINER_ARRAY_LEN big_first))) / of_nat MTP_PACKET_MAX_SIZE) < 0"
    unfolding Math_ceil_div rd_big MTP_CONTAINER_ARRAY_LEN_def pl by simp
  have t: "downloadAudioFile_then big_first (Some l) blobs u =
      (Resolved (Flag False), Some (l\<lparr>audioCopyTotalBytes := - 2147483148\<rparr>), blobs, u)"
    for l blobs u
    unfolding downloadAudioFile_then_def
    by (simp only: code_big if_True Let_def option.case m)
       (simp add: rd_big MTP_CONTAINER_ARRAY_LEN_def)
  have len: "length big_first = 512" by (simp add: big_first_def)
  have r: "case downloadAudioFile new_MTPDevice (new_ObjectInfoDataset (Some 1))
              (Some \<lparr>audioCopyBytes = 0, audioCopyTotalBytes = 0\<rparr>) []
              \<lparr> inbound = (\<lambda>k. if k = 0 then Data big_first else Data (replicate 512 0)),
                in_count = 0, out_ok = (\<lambda>k. True), outbound = [] \<rparr> of
         (res, dev', l', blobs', u') \<Rightarrow> res = Resolved (Flag False) \<and> in_count u' = 1"
    by (simp add: downloadAudioFile_def t getPacket_def transferIn_def sendPacket_def
        transferOut_def)
  from code_big len c r show ?thesis by (intro conjI)
qed

text \<open>The handler of the first packet, for a header length that is read as it was sent.\<close>

lemma downloadAudioFile_then_run:
  fixes n :: nat
  assumes code: "code_of first = GET_OBJECT"
    and len: "length first \<le> MTP_PACKET_MAX_SIZE"
    and hl: "12 \<le> le32_at first 0" "le32_at first 0 < 2 ^ 31"
    and n: "n = nat \<lceil>of_int (le32_at first 0 - 12 - int (length (drop 12 first))) / (512::rat)\<rceil>"
    and reads: "\<forall>j\<le>n. \<exists>d. inbound u (in_count u + j) = Data d"
  shows "\<exists>l' blobs'. downloadAudioFile_then first (Some l) blobs u
      = (Resolved (Tuple True []), l', blobs', u\<lparr>in_count := Suc (in_count u + n)\<rparr>)
      \<and> blobs' \<noteq> [] \<and> last blobs' = (int n + 1, [])
      \<and> concat (map snd blobs') = concat (map snd blobs) @ drop 12 first
           @ concat (map (\<lambda>j. bytes_of (inbound u (in_count u + j))) [0..<n])"
proof -
  let ?d = "le32_at first 0 - 12 - int (length (drop 12 first))"
  have fl: "rd32 first 0 = le32_at first 0" using hl by (simp add: rd32_small)
  have dlow: "- 512 < ?d" using hl len by (simp add: MTP_PACKET_MAX_SIZE_def)
  have ceil: "Math_ceil (of_int ?d / of_nat MTP_PACKET_MAX_SIZE) = int n"
    unfolding n by (rule Math_ceil_nat[OF dlow])
  have "\<forall>j<n. \<exists>d. inbound u (in_count u + j) = Data d"
    using reads by (simp add: less_imp_le)
  from download_loop_run[OF this]
  obtain st' where loop: "download_loop n
      \<lparr>objectBuffer = drop 12 first, blobCount = 0, fileblobs = blobs,
        lena = l\<lparr>audioCopyTotalBytes := le32_at first 0 - 12\<rparr>\<rparr> u
      = (Completed, st', u\<lparr>in_count := in_count u + n\<rparr>)"
    and bc: "blobCount st' = int n"
    and stored: "concat (map snd (fileblobs st')) @ objectBuffer st'
               = concat (map snd blobs) @ drop 12 first
                   @ concat (map (\<lambda>j. bytes_of (inbound u (in_count u + j))) [0..<n])"
    by fastforce
  from reads obtain d where last: "inbound u (in_count u + n) = Data d" by blast
  have fin: "transferIn (u\<lparr>in_count := in_count u + n\<rparr>)
      = (Data d, u\<lparr>in_count := Suc (in_count u + n)\<rparr>)"
    using last by (simp add: transferIn_def)
  have "downloadAudioFile_then first (Some l) blobs u
      = (Resolved (Tuple True []),
         Some ((lena st')\<lparr>audioCopyBytes := audioCopyBytes (lena st') + int (length (objectBuffer st')) + 0\<rparr>),
         (fileblobs st' @ [(blobCount st', objectBuffer st')]) @ [(blobCount st' + 1, [])],
         u\<lparr>in_count := Suc (in_count u + n)\<rparr>)"
    unfolding downloadAudioFile_then_def
    by (simp only: code if_True Let_def fl ceil MTP_CONTAINER_ARRAY_LEN_def option.case
        nat_int loop fin prod.case flow.case xfer.case of_nat_numeral) simp
  moreover have "concat (map snd ((fileblobs st' @ [(blobCount st', objectBuffer st')])
                    @ [(blobCount st' + 1, [])]))
      = concat (map snd blobs) @ drop 12 first
           @ concat (map (\<lambda>j. bytes_of (inbound u (in_count u + j))) [0..<n])"
    using stored by simp
  ultimately show ?thesis by (simp add: bc)
qed

lemma code_full: "code_of full_first = GET_OBJECT"
  by (simp add: full_first_def code_of_def rd_def js_or_def js_shl_def ToInt32_def GET_OBJECT_def)

lemma le_full: "le32_at full_first 0 = 1040"
  by (simp add: full_first_def le32_at_def rd_def)

text \<open>
  Claim C2 as stated fails. An object of 1028 bytes arrives as a Data phase of 1040 bytes:
  the full first packet \<open>full_first\<close> with 500 bytes of payload, a full packet, and a short
  packet of 16 bytes, which ends the Data phase; the Response follows. The loop makes the
  2 reads of the claim, and the second of them consumes the short packet: its 16 bytes
  are in the blob that the loop leaves. The one additional read is the fourth read of
  the call; it consumes the Response, not the trailing short packet, and no read of the
  download is left for checking the Response.
\<close>

theorem downloadAudioFile_response_read_counterexample:
  "code_of full_first = GET_OBJECT \<and> length full_first = 512 \<and> le32_at full_first 0 = 12 + 1028
   \<and> drop 12 full_first = replicate 500 1
   \<and> \<lceil>of_int (le32_at full_first 0 - 12 - int (length (drop 12 full_first))) / (512::rat)\<rceil> = 2
   \<and> (case downloadAudioFile new_MTPDevice (new_ObjectInfoDataset (Some 1))
              (Some \<lparr>audioCopyBytes = 0, audioCopyTotalBytes = 0\<rparr>) []
              (usb_of [Data full_first, Data (replicate 512 7), Data (replicate 16 8),
                       Data ok_response]) of
         (res, dev', l', blobs', u') \<Rightarrow>
           res = Resolved (Tuple True []) \<and> in_count u' = 4
           \<and> blobs' = [(2, replicate 500 1 @ replicate 512 7 @ replicate 16 8), (3, [])]
           \<and> inbound u' 2 = Data (replicate 16 8) \<and> inbound u' 3 = Data ok_response)"
proof -
  have len: "length full_first = 512" by (simp add: full_first_def)
  have pl: "drop 12 full_first = replicate 500 1" by (simp add: full_first_def)
  have c: "\<lceil>of_int (le32_at full_first 0 - 12 - int (length (drop 12 full_first))) / (512::rat)\<rceil> = 2"
    unfolding le_full pl ceil_512 by simp
  have m: "Math_ceil (of_int (rd32 full_first 0 - int MTP_CONTAINER_ARRAY_LEN
               - int (length (drop MTP_CONTAINER_ARRAY_LEN full_first))) / of_nat MTP_PACKET_MAX_SIZE) = 2"
    unfolding Math_ceil_div MTP_CONTAINER_ARRAY_LEN_def pl by (simp add: rd32_small le_full)
  have t: "downloadAudioFile_then full_first (Some \<lparr>audioCopyBytes = 0, audioCopyTotalBytes = 0\<rparr>) []
             \<lparr> inbound = i, in_count = Suc 0, out_ok = k, outbound = b \<rparr>
           = (Resolved (Tuple True []), Some \<lparr>audioCopyBytes = 1028, audioCopyTotalBytes = 1028\<rparr>,
              [(2, replicate 500 1 @ replicate 512 7 @ replicate 16 8), (3, [])],
              \<lparr> inbound = i, in_count = Suc (Suc (Suc (Suc 0))), out_ok = k, outbound = b \<rparr>)"
    if "i (Suc 0) = Data (replicate 512 7)" "i (Suc (Suc 0)) = Data (replicate 16 8)"
      "i (Suc (Suc (Suc 0))) = Data ok_response"
    for i k b
    unfolding downloadAudioFile_then_def
    apply (simp only: code_full if_True Let_def option.case m)
    apply (simp add: numeral_2_eq_2 transferIn_def that pl MTP_CONTAINER_ARRAY_LEN_def rd32_small le_full)
    done
  have r: "case downloadAudioFile new_MTPDevice (new_ObjectInfoDataset (Some 1))
              (Some \<lparr>audioCopyBytes = 0, audioCopyTotalBytes = 0\<rparr>) []
              (usb_of [Data full_first, Data (replicate 512 7), Data (replicate 16 8),
                       Data ok_response]) of
         (res, dev', l', blobs', u') \<Rightarrow>
           res = Resolved (Tuple True []) \<and> in_count u' = 4
           \<and> blobs' = [(2, replicate 500 1 @ replicate 512 7 @ replicate 16 8), (3, [])]
           \<and> inbound u' 2 = Data (replicate 16 8) \<and> inbound u' 3 = Data ok_response"
    by (simp add: downloadAudioFile_def usb_of_def t getPacket_def transferIn_def sendPacket_def
        transferOut_def)
  from code_full len le_full pl c r show ?thesis by (intro conjI) simp_all
qed

text \<open>
  Claim C2, amended. A progress record is passed, the Command is written, the first
  packet read is at most 512 bytes long, has the code of GetObject and a header length
  from 12 to below \<open>2 ^ 31\<close>, and the \<open>n + 1\<close> reads that follow bring data. With
  \<open>declared_total = header.length - 12\<close> and \<open>first_payload_len\<close> the number of bytes
  after the 12-byte header, the download makes, after the first read, exactly
  \<open>n = \<lceil>(declared_total - first_payload_len) / 512\<rceil>\<close> reads in its loop and exactly one
  more, and then resolves with \<open>[true, []]\<close>: \<open>1 + n + 1\<close> reads in all. The reads of the
  loop consume the \<open>n\<close> packets after the first, whatever their length: the
  blobs added hold the payload of the first packet and the bytes of those \<open>n\<close> packets, in
  order. The one additional read consumes the packet after them, whatever it is, and
  nothing of it is kept: the blob added last is empty and numbered \<open>n + 1\<close>.
\<close>

theorem downloadAudioFile_read_count:
  fixes n :: nat
  assumes first: "inbound u (in_count u) = Data first"
    and code: "code_of first = GET_OBJECT"
    and len: "length first \<le> MTP_PACKET_MAX_SIZE"
    and hl: "12 \<le> le32_at first 0" "le32_at first 0 < 2 ^ 31"
    and n: "n = nat \<lceil>of_int (le32_at first 0 - 12 - int (length (drop 12 first))) / (512::rat)\<rceil>"
    and reads: "\<forall>j\<le>n. \<exists>d. inbound u (in_count u + 1 + j) = Data d"
    and wr: "out_ok u (length (outbound u))"
  shows "case downloadAudioFile dev fileObject (Some l) blobs u of
           (res, dev', l', blobs', u') \<Rightarrow>
             res = Resolved (Tuple True []) \<and> in_count u' = in_count u + 1 + n + 1
             \<and> blobs' \<noteq> [] \<and> last blobs' = (int n + 1, [])
             \<and> concat (map snd blobs') = concat (map snd blobs) @ drop 12 first
                  @ concat (map (\<lambda>j. bytes_of (inbound u (in_count u + 1 + j))) [0..<n])"
proof -
  let ?u1 = "u\<lparr>in_count := Suc (in_count u)\<rparr>"
  let ?pkt = "container_array (pack (setParams (num (fileID fileObject)) 0 0 0 0
                  (setOperation GET_OBJECT
                    (setTransactionType MTP_PACKET_TYPE_COMMAND
                      (setTransactionID (transactionID (dev\<lparr>transactionID := transactionID dev + 1\<rparr>))
                        (new_mtpPacket 1))))))"
  let ?u2 = "?u1\<lparr>outbound := outbound u @ [?pkt]\<rparr>"
  have "\<forall>j\<le>n. \<exists>d. inbound ?u2 (in_count ?u2 + j) = Data d"
    using reads by simp
  from downloadAudioFile_then_run[OF code len hl n this, of l blobs]
  obtain l' blobs' where th: "downloadAudioFile_then first (Some l) blobs ?u2
      = (Resolved (Tuple True []), l', blobs', ?u2\<lparr>in_count := Suc (in_count ?u2 + n)\<rparr>)"
    and bl: "blobs' \<noteq> []" "last blobs' = (int n + 1, [])"
      "concat (map snd blobs') = concat (map snd blobs) @ drop 12 first
           @ concat (map (\<lambda>j. bytes_of (inbound u (in_count u + 1 + j))) [0..<n])"
    by auto
  have rp: "receivePackets u 1 = (Some [first], ?u1)"
    using receive_one[OF first] by simp
  have sp: "sendPacket ?u1 ?pkt = (True, ?u2)"
    using wr by (simp add: sendPacket_def transferOut_def)
  show ?thesis
    unfolding downloadAudioFile_def
    by (simp only: rp prod.case Let_def sp th option.case list.case if_True) (simp add: bl)
qed

text \<open>A download of 1028 bytes: 4 arrive with the header, two reads of the loop and the
  one after it follow.\<close>

theorem downloadAudioFile_read_count_witness:
  "inbound (usb_of [Data small_first, Data (replicate 5 7), Data (replicate 5 8), Data []]) 0
     = Data small_first
   \<and> code_of small_first = GET_OBJECT
   \<and> length small_first \<le> MTP_PACKET_MAX_SIZE
   \<and> 12 \<le> le32_at small_first 0 \<and> le32_at small_first 0 < 2 ^ 31
   \<and> (2::nat) = nat \<lceil>of_int (le32_at small_first 0 - 12 - int (length (drop 12 small_first)))
                       / (512::rat)\<rceil>
   \<and> (case downloadAudioFile new_MTPDevice (new_ObjectInfoDataset (Some 1))
              (Some \<lparr>audioCopyBytes = 0, audioCopyTotalBytes = 0\<rparr>) []
              (usb_of [Data small_first, Data (replicate 5 7), Data (replicate 5 8), Data []]) of
         (res, dev', l', blobs', u') \<Rightarrow>
           res = Resolved (Tuple True []) \<and> in_count u' = 0 + 1 + 2 + 1
           \<and> blobs' \<noteq> [] \<and> last blobs' = (int 2 + 1, [])
           \<and> concat (map snd blobs') = [1, 2, 3, 4] @ replicate 5 7 @ replicate 5 8)"
proof -
  let ?u = "usb_of [Data small_first, Data (replicate 5 7), Data (replicate 5 8), Data []]"
  have 0: "in_count ?u = 0" by (simp add: usb_of_def)
  have 1: "inbound ?u (in_count ?u) = Data small_first" by (simp add: usb_of_def)
  have 2: "code_of small_first = GET_OBJECT"
    by (simp add: small_first_def code_of_def rd_def js_or_def js_shl_def ToInt32_def
        GET_OBJECT_def)
  have 3: "length small_first \<le> MTP_PACKET_MAX_SIZE"
    by (simp add: small_first_def MTP_PACKET_MAX_SIZE_def)
  have le: "le32_at small_first 0 = 1040" by (simp add: small_first_def le32_at_def rd_def)
  have 4: "12 \<le> le32_at small_first 0" "le32_at small_first 0 < 2 ^ 31" by (simp_all add: le)
  have pl: "length (drop 12 small_first) = 4" by (simp add: small_first_def)
  have 6: "(2::nat) = nat \<lceil>of_int (le32_at small_first 0 - 12 - int (length (drop 12 small_first)))
                            / (512::rat)\<rceil>"
    unfolding le pl ceil_512 by simp
  have 7: "\<forall>j\<le>2. \<exists>d. inbound ?u (in_count ?u + 1 + j) = Data d"
  proof (intro allI impI)
    fix j :: nat assume "j \<le> 2"
    then have "j = 0 \<or> j = 1 \<or> j = 2" by arith
    then show "\<exists>d. inbound ?u (in_count ?u + 1 + j) = Data d"
      by (auto simp add: usb_of_def)
  qed
  have 8: "out_ok ?u (length (outbound ?u))" by (simp add: usb_of_def)
  have 9: "[] @ drop 12 small_first
             @ concat (map (\<lambda>j. bytes_of (inbound ?u (in_count ?u + 1 + j))) [0..<2])
           = [1, 2, 3, 4] @ replicate 5 7 @ replicate 5 8"
    by (simp add: upt_rec usb_of_def bytes_of_def small_first_def)
  from downloadAudioFile_read_count[OF 1 2 3 4 6 7 8, where dev = new_MTPDevice
      and fileObject = "new_ObjectInfoDataset (Some 1)"
      and l = "\<lparr>audioCopyBytes = 0, audioCopyTotalBytes = 0\<rparr>" and blobs = "[]"]
  have r: "case downloadAudioFile new_MTPDevice (new_ObjectInfoDataset (Some 1))
              (Some \<lparr>audioCopyBytes = 0, audioCopyTotalBytes = 0\<rparr>) [] ?u of
         (res, dev', l', blobs', u') \<Rightarrow>
           res = Resolved (Tuple True []) \<and> in_count u' = 0 + 1 + 2 + 1
           \<and> blobs' \<noteq> [] \<and> last blobs' = (int 2 + 1, [])
           \<and> concat (map snd blobs') = [1, 2, 3, 4] @ replicate 5 7 @ replicate 5 8"
    unfolding 0 9[unfolded 0, simplified] by (simp add: upt_rec usb_of_def bytes_of_def small_first_def)
  from 1[unfolded 0] 2 3 4 6 r show ?thesis by (intro conjI)
qed

section \<open>openSession\<close>

lemma code_ok_response: "code_of ok_response = MTP_OK"
  by (simp add: ok_response_def code_of_def rd_def js_or_def js_shl_def ToInt32_def MTP_OK_def)

lemma openSession_packet:
  "command_packet 1 MTP_OPEN_SESSION 0 1 0 0 0 0
     = [0x10, 0, 0, 0, 1, 0, 0x02, 0x10, 0, 0, 0, 0, 1, 0, 0, 0]"
proof -
  have "command_packet 1 MTP_OPEN_SESSION 0 1 0 0 0 0
          = le_bytes 4 (12 + 4 * int 1) @ le_bytes 2 1 @ le_bytes 2 MTP_OPEN_SESSION @ le_bytes 4 0
            @ concat (map (le_bytes 4) (take 1 [1, 0, 0, 0, 0]))"
    by (rule command_packet_bytes) simp
  also have "\<dots> = [0x10, 0, 0, 0, 1, 0, 0x02, 0x10, 0, 0, 0, 0, 1, 0, 0, 0]"
    by (simp add: le_bytes_4 le_bytes_2 MTP_OPEN_SESSION_def)
  finally show ?thesis .
qed

text \<open>Whatever the device answers, \<open>openSession\<close> hands exactly one buffer to the OUT
  endpoint.\<close>

lemma openSession_outbound:
  "outbound (snd (snd (openSession dev u)))
     = outbound u @ [command_packet 1 MTP_OPEN_SESSION (transactionID dev) (sessionID dev) 0 0 0 0]"
  by (simp add: openSession_def transferIn_def sendPacket_def transferOut_def
      split: xfer.splits prod.splits)

text \<open>
  Claim C6 as stated fails: on a device as the constructor makes it (session id 1,
  transaction id 0), with the device answering OK, \<open>openSession\<close> succeeds and the bytes
  written are not \<open>0C 00 00 00 | 01 00 | 02 10 | 00 00 00 00 | 01 00 00 00\<close>.
\<close>

theorem openSession_bytes_counterexample:
  "fst (openSession new_MTPDevice (usb_of [Data ok_response])) = Resolved True
   \<and> outbound (snd (snd (openSession new_MTPDevice (usb_of [Data ok_response]))))
       \<noteq> [[0x0c, 0, 0, 0, 1, 0, 0x02, 0x10, 0, 0, 0, 0, 1, 0, 0, 0]]"
proof -
  have "fst (openSession new_MTPDevice (usb_of [Data ok_response])) = Resolved True"
    by (simp add: openSession_def transferIn_def sendPacket_def transferOut_def usb_of_def
        code_ok_response)
  moreover have "outbound (snd (snd (openSession new_MTPDevice (usb_of [Data ok_response]))))
       = [[0x10, 0, 0, 0, 1, 0, 0x02, 0x10, 0, 0, 0, 0, 1, 0, 0, 0]]"
  proof -
    have f: "transactionID new_MTPDevice = 0" "sessionID new_MTPDevice = 1"
      by (simp_all add: new_MTPDevice_def)
    show ?thesis unfolding openSession_outbound f openSession_packet by (simp add: usb_of_def)
  qed
  ultimately show ?thesis by simp
qed

text \<open>
  Claim C6, amended. When \<open>openSession\<close> issues its Command with session id 1 and
  transaction id 0, the one buffer written to the OUT endpoint is exactly
  \<open>10 00 00 00 | 01 00 | 02 10 | 00 00 00 00 | 01 00 00 00\<close>: sixteen bytes, and the
  length field says sixteen.
\<close>

theorem openSession_bytes:
  assumes "sessionID dev = 1" and "transactionID dev = 0"
  shows "outbound (snd (snd (openSession dev u)))
           = outbound u @ [[0x10, 0, 0, 0, 1, 0, 0x02, 0x10, 0, 0, 0, 0, 1, 0, 0, 0]]"
  unfolding openSession_outbound assms openSession_packet ..

theorem openSession_bytes_witness:
  "sessionID new_MTPDevice = 1 \<and> transactionID new_MTPDevice = 0
   \<and> outbound (snd (snd (openSession new_MTPDevice (usb_of [Data ok_response]))))
       = outbound (usb_of [Data ok_response])
         @ [[0x10, 0, 0, 0, 1, 0, 0x02, 0x10, 0, 0, 0, 0, 1, 0, 0, 0]]"
proof -
  have 1: "sessionID new_MTPDevice = 1" and 2: "transactionID new_MTPDevice = 0"
    by (simp_all add: new_MTPDevice_def)
  from 1 2 openSession_bytes[OF 1 2, of "usb_of [Data ok_response]"]
  show ?thesis by (intro conjI)
qed

section \<open>deleteFile\<close>

lemma deleteFile_device:
  "fst (snd (deleteFile dev fileObject u)) = dev\<lparr>transactionID := transactionID dev + 1\<rparr>"
  by (simp add: deleteFile_def Let_def split: prod.splits)

lemma deleteFile_ok:
  assumes "inbound u (in_count u) = Data p0" and "code_of p0 = MTP_OK"
    and "out_ok u (length (outbound u))"
  shows "fst (deleteFile dev fileObject u) = Resolved True"
  using assms receive_one[OF assms(1)]
  by (simp add: deleteFile_def Let_def sendPacket_def transferOut_def)

text \<open>
  Claim C8 as stated fails: the device lists \<open>command.txt\<close> in its only storage,
  \<open>deleteFile\<close> for that object resolves \<open>true\<close> on the response \<open>0x2001\<close>, and the
  object is still in the storage's list afterwards.
\<close>

theorem deleteFile_still_listed_counterexample:
  "command_txt \<in> set (objectInfoObjects (hd (storageInfoObjects one_file_device)))
   \<and> fst (deleteFile one_file_device command_txt (usb_of [Data ok_response])) = Resolved True
   \<and> command_txt \<in> set (objectInfoObjects (hd (storageInfoObjects
         (fst (snd (deleteFile one_file_device command_txt (usb_of [Data ok_response])))))))"
proof -
  have "fst (deleteFile one_file_device command_txt (usb_of [Data ok_response])) = Resolved True"
    by (rule deleteFile_ok[where ?p0.0 = ok_response]) (simp_all add: usb_of_def code_ok_response)
  then show ?thesis
    by (simp add: deleteFile_device one_file_device_def)
qed

text \<open>
  Claim C8, amended. For every DeleteObject call that succeeds (the Command is written
  and the response read has code \<open>0x2001\<close>), \<open>deleteFile\<close> resolves \<open>true\<close> and leaves the
  device's storage list, every object list in it included, exactly as it was: the
  driver removes nothing from its local lists, and the object of the call is in the
  object list of a storage after the call exactly when it was there before.
\<close>

theorem deleteFile_keeps_lists:
  assumes "inbound u (in_count u) = Data p0" and "code_of p0 = MTP_OK"
    and "out_ok u (length (outbound u))"
  shows "fst (deleteFile dev fileObject u) = Resolved True
         \<and> storageInfoObjects (fst (snd (deleteFile dev fileObject u))) = storageInfoObjects dev
         \<and> ((\<exists>s \<in> set (storageInfoObjects (fst (snd (deleteFile dev fileObject u)))).
                 fileObject \<in> set (objectInfoObjects s))
              = (\<exists>s \<in> set (storageInfoObjects dev). fileObject \<in> set (objectInfoObjects s)))"
  using deleteFile_ok[OF assms] by (simp add: deleteFile_device)

theorem deleteFile_keeps_lists_witness:
  "inbound (usb_of [Data ok_response]) (in_count (usb_of [Data ok_response])) = Data ok_response
   \<and> code_of ok_response = MTP_OK
   \<and> out_ok (usb_of [Data ok_response]) (length (outbound (usb_of [Data ok_response])))
   \<and> fst (deleteFile one_file_device command_txt (usb_of [Data ok_response])) = Resolved True
   \<and> storageInfoObjects (fst (snd (deleteFile one_file_device command_txt
         (usb_of [Data ok_response])))) = storageInfoObjects one_file_device"
proof -
  let ?u = "usb_of [Data ok_response]"
  have 1: "inbound ?u (in_count ?u) = Data ok_response" by (simp add: usb_of_def)
  have 3: "out_ok ?u (length (outbound ?u))" by (simp add: usb_of_def)
  from 1 code_ok_response 3
    deleteFile_keeps_lists[OF 1 code_ok_response 3, of one_file_device command_txt]
  show ?thesis by (intro conjI) simp_all
qed

section \<open>getStorageIDS\<close>

lemma fold_push: "fold (\<lambda>i objs. objs @ [f i]) xs acc = acc @ map f xs"
  by (induction xs arbitrary: acc) simp_all

lemma getPacket_frame:
  "outbound (snd (getPacket u)) = outbound u" "out_ok (snd (getPacket u)) = out_ok u"
  by (simp_all add: getPacket_def transferIn_def split: xfer.splits)

lemma receivePackets_frame:
  "outbound (snd (receivePackets u n)) = outbound u \<and> out_ok (snd (receivePackets u n)) = out_ok u"
proof (induction n arbitrary: u)
  case 0
  then show ?case by simp
next
  case (Suc n)
  obtain r u1 where g: "getPacket u = (r, u1)" by (cases "getPacket u")
  obtain rs u2 where h: "receivePackets u1 n = (rs, u2)" by (cases "receivePackets u1 n")
  have "outbound u1 = outbound u" "out_ok u1 = out_ok u"
    using getPacket_frame[of u] g by simp_all
  moreover have "outbound u2 = outbound u1" "out_ok u2 = out_ok u1"
    using Suc.IH[of u1] h by simp_all
  ultimately show ?case
    by (simp add: g h split: option.splits)
qed

lemma getStorageIDS_unfold:
  assumes "receivePackets u 2 = (results, u1)"
  shows "fst (getStorageIDS dev u) =
           (if out_ok u (length (outbound u))
            then fst (case results of
                        None \<Rightarrow> (Pending, dev\<lparr>transactionID := transactionID dev + 1\<rparr>)
                      | Some receivedPackets \<Rightarrow>
                          getStorageIDS_then receivedPackets (dev\<lparr>transactionID := transactionID dev + 1\<rparr>))
            else Rejected)"
    and "fst (snd (getStorageIDS dev u)) =
           snd (case results of
                  None \<Rightarrow> (Pending, dev\<lparr>transactionID := transactionID dev + 1\<rparr>)
                | Some receivedPackets \<Rightarrow>
                    getStorageIDS_then receivedPackets (dev\<lparr>transactionID := transactionID dev + 1\<rparr>))"
proof -
  have f: "outbound u1 = outbound u" "out_ok u1 = out_ok u"
    using receivePackets_frame[of u 2] assms by simp_all
  show "fst (getStorageIDS dev u) =
           (if out_ok u (length (outbound u))
            then fst (case results of
                        None \<Rightarrow> (Pending, dev\<lparr>transactionID := transactionID dev + 1\<rparr>)
                      | Some receivedPackets \<Rightarrow>
                          getStorageIDS_then receivedPackets (dev\<lparr>transactionID := transactionID dev + 1\<rparr>))
            else Rejected)"
    unfolding getStorageIDS_def assms
    by (simp add: Let_def sendPacket_def transferOut_def f split: prod.splits)
  show "fst (snd (getStorageIDS dev u)) =
           snd (case results of
                  None \<Rightarrow> (Pending, dev\<lparr>transactionID := transactionID dev + 1\<rparr>)
                | Some receivedPackets \<Rightarrow>
                    getStorageIDS_then receivedPackets (dev\<lparr>transactionID := transactionID dev + 1\<rparr>))"
    unfolding getStorageIDS_def assms
    by (simp add: Let_def sendPacket_def transferOut_def f split: prod.splits)
qed

lemma getStorageIDS_then_ok:
  assumes "code_of (if code_of p0 = MTP_GET_STORAGE_IDS then p1 else p0) = MTP_OK"
  shows "getStorageIDS_then [p0, p1] dev =
     (Resolved True, dev\<lparr>storageInfoObjects :=
        map (\<lambda>i. new_storageInfoDataset
                    (rd32 (if code_of p0 = MTP_GET_STORAGE_IDS then p0 else p1) (16 + i * 4)))
          [0..<nat (rd32 (if code_of p0 = MTP_GET_STORAGE_IDS then p0 else p1) 12)]\<rparr>)"
  using assms by (simp add: getStorageIDS_then_def Let_def fold_push)

lemma getStorageIDS_then_not_ok:
  assumes "code_of (if code_of p0 = MTP_GET_STORAGE_IDS then p1 else p0) \<noteq> MTP_OK"
  shows "getStorageIDS_then [p0, p1] dev = (Resolved False, dev)"
  using assms by (simp add: getStorageIDS_then_def Let_def)
lemma code_storage_ids_data: "code_of storage_ids_data = MTP_GET_STORAGE_IDS"
  by (simp add: storage_ids_data_def code_of_def rd_def js_or_def js_shl_def ToInt32_def
      MTP_GET_STORAGE_IDS_def)
lemma code_error_response: "code_of error_response \<noteq> MTP_OK"
  by (simp add: error_response_def code_of_def rd_def js_or_def js_shl_def ToInt32_def MTP_OK_def)

text \<open>
  Claim C7. The two packets read are, in either order, a Data packet with the code of
  GetStorageIDs, at most 512 bytes long, whose payload holds a 32-bit count and that many
  32-bit storage ids, and a Response packet with the code \<open>0x2001\<close>; the Command is
  written. Then \<open>getStorageIDS\<close> resolves \<open>true\<close> and the device's storage list is
  replaced by exactly \<open>count\<close> records, the \<open>i\<close>-th a fresh record for the \<open>i\<close>-th id of the
  payload, each with an empty object list. The \<open>storageID\<close> recorded is the id as the
  driver reads every 32-bit field, a signed 32-bit number; modulo \<open>2 ^ 32\<close> it is the id.
\<close>

theorem getStorageIDS_replaces_list:
  fixes count :: nat
  assumes r0: "inbound u (in_count u) = Data p0" and r1: "inbound u (Suc (in_count u)) = Data p1"
    and order: "(p0 = dat \<and> p1 = resp) \<or> (p0 = resp \<and> p1 = dat)"
    and dcode: "code_of dat = MTP_GET_STORAGE_IDS" and rcode: "code_of resp = MTP_OK"
    and len: "length dat \<le> MTP_PACKET_MAX_SIZE"
    and count: "int count = le32_at dat 12"
    and room: "16 + 4 * count \<le> length dat"
    and wr: "out_ok u (length (outbound u))"
  shows "fst (getStorageIDS dev u) = Resolved True
     \<and> storageInfoObjects (fst (snd (getStorageIDS dev u)))
         = map (\<lambda>i. new_storageInfoDataset (ToInt32 (le32_at dat (16 + 4 * i)))) [0..<count]
     \<and> length (storageInfoObjects (fst (snd (getStorageIDS dev u)))) = count
     \<and> map (\<lambda>s. storageID s mod 2 ^ 32) (storageInfoObjects (fst (snd (getStorageIDS dev u))))
         = map (\<lambda>i. le32_at dat (16 + 4 * i)) [0..<count]
     \<and> map objectInfoObjects (storageInfoObjects (fst (snd (getStorageIDS dev u))))
         = replicate count []"
proof -
  have ne: "MTP_OK \<noteq> MTP_GET_STORAGE_IDS" by (simp add: MTP_OK_def MTP_GET_STORAGE_IDS_def)
  from order dcode rcode ne
  have sel: "(if code_of p0 = MTP_GET_STORAGE_IDS then p0 else p1) = dat"
    "(if code_of p0 = MTP_GET_STORAGE_IDS then p1 else p0) = resp"
    by auto
  have "count \<le> 124" using room len by (simp add: MTP_PACKET_MAX_SIZE_def)
  then have small: "le32_at dat 12 < 2 ^ 31" using count by simp
  have cnt: "nat (rd32 dat 12) = count"
    using rd32_small[OF small] count by simp
  have ids: "rd32 dat (16 + i * 4) = ToInt32 (le32_at dat (16 + 4 * i))" for i
    by (simp add: rd32_signed ToInt32_def mult.commute)
  have rp: "receivePackets u 2 = (Some [p0, p1], u\<lparr>in_count := Suc (Suc (in_count u))\<rparr>)"
    using receive_two[OF r0 r1] by (simp add: numeral_2_eq_2)
  have "getStorageIDS_then [p0, p1] (dev\<lparr>transactionID := transactionID dev + 1\<rparr>) =
     (Resolved True, dev\<lparr>transactionID := transactionID dev + 1, storageInfoObjects :=
        map (\<lambda>i. new_storageInfoDataset (ToInt32 (le32_at dat (16 + 4 * i)))) [0..<count]\<rparr>)"
    using getStorageIDS_then_ok[of p0 p1] rcode by (simp add: sel cnt ids)
  then have *: "fst (getStorageIDS dev u) = Resolved True"
    "storageInfoObjects (fst (snd (getStorageIDS dev u)))
         = map (\<lambda>i. new_storageInfoDataset (ToInt32 (le32_at dat (16 + 4 * i)))) [0..<count]"
    using wr by (simp_all add: getStorageIDS_unfold[OF rp])
  show ?thesis unfolding *
    by (simp add: new_storageInfoDataset_def o_def map_replicate_const
        ToInt32_le32_at[simplified])
qed

text \<open>The exchange of the specification's scenario: storages \<open>0x00010001\<close> and
  \<open>0x00010002\<close>.\<close>

theorem getStorageIDS_replaces_list_witness:
  "inbound (usb_of [Data storage_ids_data, Data ok_response]) 0 = Data storage_ids_data
   \<and> inbound (usb_of [Data storage_ids_data, Data ok_response]) (Suc 0) = Data ok_response
   \<and> code_of storage_ids_data = MTP_GET_STORAGE_IDS \<and> code_of ok_response = MTP_OK
   \<and> length storage_ids_data \<le> MTP_PACKET_MAX_SIZE
   \<and> int 2 = le32_at storage_ids_data 12
   \<and> 16 + 4 * 2 \<le> length storage_ids_data
   \<and> fst (getStorageIDS one_file_device (usb_of [Data storage_ids_data, Data ok_response]))
       = Resolved True
   \<and> storageInfoObjects (fst (snd (getStorageIDS one_file_device
         (usb_of [Data storage_ids_data, Data ok_response]))))
       = [new_storageInfoDataset 0x00010001, new_storageInfoDataset 0x00010002]"
proof -
  let ?u = "usb_of [Data storage_ids_data, Data ok_response]"
  have 0: "in_count ?u = 0" by (simp add: usb_of_def)
  have 1: "inbound ?u (in_count ?u) = Data storage_ids_data" by (simp add: usb_of_def)
  have 2: "inbound ?u (Suc (in_count ?u)) = Data ok_response" by (simp add: usb_of_def)
  have 3: "(storage_ids_data = storage_ids_data \<and> ok_response = ok_response)
           \<or> (storage_ids_data = ok_response \<and> ok_response = storage_ids_data)" by simp
  have 4: "length storage_ids_data \<le> MTP_PACKET_MAX_SIZE"
    by (simp add: storage_ids_data_def MTP_PACKET_MAX_SIZE_def)
  have 5: "int 2 = le32_at storage_ids_data 12"
    by (simp add: storage_ids_data_def le32_at_def rd_def)
  have 6: "16 + 4 * 2 \<le> length storage_ids_data" by (simp add: storage_ids_data_def)
  have 7: "out_ok ?u (length (outbound ?u))" by (simp add: usb_of_def)
  have ids: "map (\<lambda>i. new_storageInfoDataset (ToInt32 (le32_at storage_ids_data (16 + 4 * i)))) [0..<2]
       = [new_storageInfoDataset 0x00010001, new_storageInfoDataset 0x00010002]"
    by (simp add: upt_rec storage_ids_data_def le32_at_def rd_def ToInt32_def)
  from getStorageIDS_replaces_list[OF 1 2 3 code_storage_ids_data code_ok_response 4 5 6 7, of one_file_device]
  have r: "fst (getStorageIDS one_file_device ?u) = Resolved True"
    "storageInfoObjects (fst (snd (getStorageIDS one_file_device ?u)))
       = [new_storageInfoDataset 0x00010001, new_storageInfoDataset 0x00010002]"
    unfolding ids by simp_all
  from 1[unfolded 0] 2[unfolded 0] code_storage_ids_data code_ok_response 4 5 6 r
  show ?thesis by (intro conjI)
qed

text \<open>What the driver does when both packets are read, the Command is written and the
  response code is not \<open>0x2001\<close>: the call resolves \<open>false\<close> and the storage list is as
  before.\<close>

lemma getStorageIDS_error_code:
  assumes r: "inbound u (in_count u) = Data p0" "inbound u (Suc (in_count u)) = Data p1"
    and nok: "code_of (if code_of p0 = MTP_GET_STORAGE_IDS then p1 else p0) \<noteq> MTP_OK"
    and wr: "out_ok u (length (outbound u))"
  shows "fst (getStorageIDS dev u) = Resolved False
     \<and> storageInfoObjects (fst (snd (getStorageIDS dev u))) = storageInfoObjects dev"
proof -
  have rp: "receivePackets u 2 = (Some [p0, p1], u\<lparr>in_count := Suc (Suc (in_count u))\<rparr>)"
    using receive_two[OF r] by (simp add: numeral_2_eq_2)
  show ?thesis
    using wr by (simp add: getStorageIDS_unfold[OF rp] getStorageIDS_then_not_ok[OF nok])
qed

text \<open>
  Claim C10. The driver does not do what the claim says on a transfer error. When the
  bulk-IN reads are rejected, \<open>getPacket\<close> has no rejection handler, the promise of
  \<open>receivePackets\<close> never settles, and the handler of \<open>getStorageIDS\<close> that resolves
  \<open>false\<close> is never reached: the call stays pending (the storage list is as before).
  \<open>openSession\<close>, which attaches its handler to the read itself, resolves \<open>false\<close> on the
  same rejected read, and \<open>getStorageIDS\<close> itself resolves \<open>false\<close> on the response code
  \<open>0x2002\<close>. When the write of the Command is rejected the call rejects, and if the two
  packets arrive all the same, the storage list is rebuilt from them.
\<close>

theorem getStorageIDS_rejected_read:
  "fst (getStorageIDS one_file_device (usb_of [Failed, Failed])) = Pending
   \<and> fst (getStorageIDS one_file_device (usb_of [Failed, Failed])) \<noteq> Resolved False
   \<and> storageInfoObjects (fst (snd (getStorageIDS one_file_device (usb_of [Failed, Failed]))))
       = storageInfoObjects one_file_device
   \<and> fst (openSession one_file_device (usb_of [Failed])) = Resolved False
   \<and> fst (getStorageIDS one_file_device (usb_of [Data storage_ids_data, Data error_response]))
       = Resolved False
   \<and> fst (getStorageIDS one_file_device
            ((usb_of [Data storage_ids_data, Data ok_response])\<lparr>out_ok := \<lambda>k. False\<rparr>)) = Rejected
   \<and> storageInfoObjects (fst (snd (getStorageIDS one_file_device
            ((usb_of [Data storage_ids_data, Data ok_response])\<lparr>out_ok := \<lambda>k. False\<rparr>))))
       = [new_storageInfoDataset 0x00010001, new_storageInfoDataset 0x00010002]"
proof -
  let ?f = "usb_of [Failed, Failed]"
  let ?w = "(usb_of [Data storage_ids_data, Data ok_response])\<lparr>out_ok := \<lambda>k. False\<rparr>"
  have "receivePackets ?f 2 = (None, ?f\<lparr>in_count := 2\<rparr>)"
    by (simp add: numeral_2_eq_2 getPacket_def transferIn_def usb_of_def)
  note f = getStorageIDS_unfold[OF this]
  have 1: "fst (getStorageIDS one_file_device ?f) = Pending"
    using f(1) by (simp add: usb_of_def)
  have 2: "storageInfoObjects (fst (snd (getStorageIDS one_file_device ?f)))
             = storageInfoObjects one_file_device"
    using f(2) by simp
  have 3: "fst (openSession one_file_device (usb_of [Failed])) = Resolved False"
    by (simp add: openSession_def transferIn_def sendPacket_def transferOut_def usb_of_def)
  have "receivePackets ?w 2 = (Some [storage_ids_data, ok_response], ?w\<lparr>in_count := 2\<rparr>)"
    by (simp add: numeral_2_eq_2 getPacket_def transferIn_def usb_of_def)
  note w = getStorageIDS_unfold[OF this]
  have ok: "code_of (if code_of storage_ids_data = MTP_GET_STORAGE_IDS then ok_response
                     else storage_ids_data) = MTP_OK"
    by (simp add: code_storage_ids_data code_ok_response)
  have 4: "fst (getStorageIDS one_file_device ?w) = Rejected"
    using w(1) by (simp add: usb_of_def)
  have ids: "rd32 storage_ids_data 12 = 2" "rd32 storage_ids_data 16 = 0x00010001"
    "rd32 storage_ids_data 20 = 0x00010002"
    by (simp_all add: rd32_small storage_ids_data_def le32_at_def rd_def)
  have 5: "storageInfoObjects (fst (snd (getStorageIDS one_file_device ?w)))
             = [new_storageInfoDataset 0x00010001, new_storageInfoDataset 0x00010002]"
    unfolding w(2) option.case getStorageIDS_then_ok[OF ok]
    by (simp add: code_storage_ids_data ids upt_rec)
  have 6: "fst (getStorageIDS one_file_device (usb_of [Data storage_ids_data, Data error_response]))
             = Resolved False"
    using getStorageIDS_error_code[of "usb_of [Data storage_ids_data, Data error_response]"
        storage_ids_data error_response one_file_device] code_error_response
    by (simp add: usb_of_def code_storage_ids_data)
  from 1 2 3 4 5 6 show ?thesis by simp
qed

section \<open>The StorageInfo dataset\<close>

lemma usedSpace_difference:
  "usedSpace (initDatasetFromMTPContainer buf s)
     = storageSize (initDatasetFromMTPContainer buf s) - freeSpace (initDatasetFromMTPContainer buf s)"
  by (simp add: initDatasetFromMTPContainer_def Let_def)

text \<open>
  Claim C3 does not hold of the code. For a storage of 8 GiB the 64-bit integer at bytes
  18 to 25 is \<open>8589934592\<close>, and the size recorded is 2: the shift counts \<open>(i - 10) * 8\<close>
  run from 64 to 120 and are taken modulo 32, so the upper four bytes are laid over the
  lower four, all in 32 bits.
\<close>

theorem storageSize_8GiB:
  "le64_at storage_info_data 18 = 8589934592
   \<and> storageSize (initDatasetFromMTPContainer storage_info_data (new_storageInfoDataset 0x00010001)) = 2"
  by (simp add: le64_at_def le32_at_def rd_def storage_info_data_def
      initDatasetFromMTPContainer_def Let_def upt_rec js_or_def js_shl_def ToInt32_def)

section \<open>uploadFileInfo\<close>

lemma code_send_info_response: "code_of send_info_response = MTP_OK"
  by (simp add: send_info_response_def code_of_def rd_def js_or_def js_shl_def ToInt32_def MTP_OK_def)

lemma js_byte:
  assumes "0 \<le> b" "b < 256"
  shows "js_and (js_sar b 0) 0xff = b" "js_and (js_sar b 8) 0xff = 0"
    "js_and (js_sar b 16) 0xff = 0" "js_and (js_sar b 24) 0xff = 0"
proof -
  have t: "ToInt32 b = b" using assms by (simp add: ToInt32_def signed_take_bit_int_eq_self)
  have m: "b AND 255 = b"
  proof -
    have "take_bit 8 b = b" using assms by (simp add: take_bit_int_eq_self)
    then have "b AND mask 8 = b" by (simp add: take_bit_eq_mask)
    then show ?thesis by (simp add: mask_eq_exp_minus_1)
  qed
  have d: "drop_bit 8 b = 0" "drop_bit 16 b = 0" "drop_bit 24 b = 0"
    using assms by (simp_all add: drop_bit_eq_div)
  show "js_and (js_sar b 0) 0xff = b" "js_and (js_sar b 8) 0xff = 0"
    "js_and (js_sar b 16) 0xff = 0" "js_and (js_sar b 24) 0xff = 0"
    using assms by (simp_all add: js_and_def js_sar_def t m d ToInt32_def signed_take_bit_int_eq_self)
qed

lemma newObjectID_byte:
  "fold (\<lambda>i newObjectID. js_or newObjectID (js_and (js_sar (rd buf i) ((int i - 20) * 8)) 0xff))
      [20..<24] 0 = rd buf 20"
proof -
  have r: "0 \<le> rd buf i" "rd buf i < 256" for i using rd_range[of buf i] by simp_all
  have o: "js_or 0 (rd buf 20) = rd buf 20" "js_or (rd buf 20) 0 = rd buf 20"
    using r[of 20] by (simp_all add: js_or_def ToInt32_def signed_take_bit_int_eq_self)
  show ?thesis
    by (simp add: upt_rec js_byte[OF r] o)
qed

lemma uploadFileInfo_then_ok:
  assumes "code_of (if code_of p0 = SEND_OBJECT_INFO then p1 else p0) = MTP_OK"
  shows "uploadFileInfo_then [p0, p1]
           = Resolved (Tuple True (rd (if code_of p0 = SEND_OBJECT_INFO then p0 else p1) 20))"
  unfolding uploadFileInfo_then_def
  by (simp only: list.case Let_def newObjectID_byte) (simp add: assms)

text \<open>
  Claim C4 does not hold of the code. Both packets read are the Response with code
  \<open>0x2001\<close> whose third parameter, the 32-bit integer at bytes 20 to 23, is 256; the
  handle returned is 0. The bytes are combined with \<open>>>\<close> where \<open><<\<close> is meant, so only
  byte 20 counts.
\<close>

theorem uploadFileInfo_handle_256:
  "code_of send_info_response = MTP_OK
   \<and> le32_at send_info_response 20 = 256
   \<and> fst (uploadFileInfo one_file_device (new_storageInfoDataset 0x00010001) ''command.txt'' 58
           (usb_of [Data send_info_response, Data send_info_response]))
       = Resolved (Tuple True 0)"
proof -
  let ?u = "usb_of [Data send_info_response, Data send_info_response]"
  have rp: "receivePackets ?u 2 = (Some [send_info_response, send_info_response], ?u\<lparr>in_count := 2\<rparr>)"
    by (simp add: numeral_2_eq_2 getPacket_def transferIn_def usb_of_def)
  have ne: "MTP_OK \<noteq> SEND_OBJECT_INFO" by (simp add: MTP_OK_def SEND_OBJECT_INFO_def)
  have th: "uploadFileInfo_then [send_info_response, send_info_response] = Resolved (Tuple True 0)"
    using uploadFileInfo_then_ok[of send_info_response send_info_response] ne
    by (simp add: code_send_info_response) (simp add: send_info_response_def rd_def)
  have r: "fst (uploadFileInfo one_file_device (new_storageInfoDataset 0x00010001) ''command.txt'' 58 ?u)
       = Resolved (Tuple True 0)"
    unfolding uploadFileInfo_def rp
    by (simp add: Let_def sendPacket_def transferOut_def usb_of_def th split: prod.splits)
  have l: "le32_at send_info_response 20 = 256"
    by (simp add: send_info_response_def le32_at_def rd_def)
  from code_send_info_response l r show ?thesis by (intro conjI)
qed

section \<open>uploadFile\<close>

lemma transferOut_frame:
  "out_ok (snd (transferOut u w)) = out_ok u" "outbound (snd (transferOut u w)) = outbound u @ [w]"
  "fst (transferOut u w) = out_ok u (length (outbound u))"
  by (simp_all add: transferOut_def)

text \<open>What \<open>pack\<close> writes into a 12-byte container array of a packet without parameters,
  whatever length the packet has been told to declare.\<close>

lemma pack_header_bytes:
  assumes "length (container_array p) = 12" and "parameterArrayLength p = 0"
    and "12 \<le> containerArrayLength p"
  shows "container_array (pack p) =
           le_bytes 4 (int (containerArrayLength p)) @ le_bytes 2 (type p)
           @ le_bytes 2 (operation p) @ le_bytes 4 (transaction_id p)"
    (is "?l = ?r")
proof (rule nth_equalityI)
  show "length ?l = length ?r"
    using assms by (simp add: pack_def Let_def)
next
  fix j assume "j < length ?l"
  then have j: "j < 12"
    using assms by (simp add: pack_def Let_def)
  then consider "j < 4" | "j = 4" | "j = 5" | "j = 6" | "j = 7"
    | "j = 8" | "j = 9" | "j = 10" | "j = 11"
    by arith
  then show "?l ! j = ?r ! j"
    using assms
    by cases
      (simp_all add: pack_def Let_def fold_store_nth store_nth nth_append le_bytes_nth
         h_and h_sar h_sar_c)
qed
lemma uploadFile_command:
  "container_array (pack (setParams 0 0 0 0 0 (setOperation SEND_OBJECT
      (setTransactionID tx (setTransactionType MTP_PACKET_TYPE_COMMAND (new_mtpPacket 0))))))
   = upload_command tx"
  by (subst pack_header_bytes)
     (simp_all add: setParams_def setTransactionID_def setOperation_def setTransactionType_def
        new_mtpPacket_def Uint8Array_def MTP_CONTAINER_ARRAY_LEN_def MTP_PACKET_TYPE_COMMAND_def
        upload_command_def)

lemma uploadFile_data_header:
  "container_array (pack ((setTransactionType CONTAINER_TYPE_DATA (setParams 0 0 0 0 0
      (setTransactionID tx (setOperation SEND_OBJECT (new_mtpPacket 0)))))
        \<lparr>containerArrayLength := MTP_CONTAINER_ARRAY_LEN + n\<rparr>))
   = upload_data_header tx n"
  by (subst pack_header_bytes)
     (simp_all add: setParams_def setTransactionID_def setOperation_def setTransactionType_def
        new_mtpPacket_def Uint8Array_def MTP_CONTAINER_ARRAY_LEN_def CONTAINER_TYPE_DATA_def
        upload_data_header_def)

lemma uploadFile_outbound:
  "outbound (snd (snd (uploadFile dev fileBytes u))) =
     (if out_ok u (length (outbound u))
      then outbound (snd (uploadFile_loop (upload_data_header (transactionID dev + 1) (length fileBytes))
              fileBytes 0 (snd (sendPacket (snd (receivePackets u 2)) (upload_command (transactionID dev + 1))))))
      else outbound u @ [upload_command (transactionID dev + 1)])"
proof -
  obtain results u1 where rp: "receivePackets u 2 = (results, u1)" by (cases "receivePackets u 2")
  have f: "outbound u1 = outbound u" "out_ok u1 = out_ok u"
    using receivePackets_frame[of u 2] rp by simp_all
  show ?thesis
    unfolding uploadFile_def rp
    by (simp add: Let_def uploadFile_command uploadFile_data_header sendPacket_def transferOut_def f
        split: prod.splits)
qed

text \<open>
  The writes of the loop from offset \<open>i\<close>: none of them is empty, and when every write
  succeeds they carry, one after the other, the header (from offset 0 of a non-empty
  file) and the rest of the file.
\<close>

lemma uploadFile_loop_writes:
  "\<exists>ws. outbound (snd (uploadFile_loop h fb i u)) = outbound u @ ws \<and> [] \<notin> set ws
        \<and> ((\<forall>k. out_ok u k) \<longrightarrow>
             fst (uploadFile_loop h fb i u)
             \<and> concat ws = (if i = 0 \<and> fb \<noteq> [] then h else []) @ drop i fb)"
proof (induction h fb i u rule: uploadFile_loop.induct)
  case (1 h fb i u)
  show ?case
  proof (cases "i < length fb")
    case False
    then show ?thesis
      by (subst (1 2) uploadFile_loop.simps) (auto intro!: exI[of _ "[]"])
  next
    case True
    define endi where "endi = (if i + MTP_PACKET_MAX_SIZE > length fb then length fb
                        else if i = 0 then i + 500 else i + MTP_PACKET_MAX_SIZE)"
    define sliced where "sliced = take (endi - i) (drop i fb)"
    define w where "w = (if i = 0 then h @ sliced else sliced)"
    define u' where "u' = u\<lparr>outbound := outbound u @ [w]\<rparr>"
    have e: "i < endi" "endi \<le> length fb"
      using True by (auto simp add: endi_def MTP_PACKET_MAX_SIZE_def)
    then have sne: "sliced \<noteq> []" using True by (simp add: sliced_def)
    then have wne: "w \<noteq> []" by (simp add: w_def)
    have sp: "sendPacket u w = (out_ok u (length (outbound u)), u')"
      by (simp add: sendPacket_def transferOut_def u'_def)
    have step: "uploadFile_loop h fb i u =
        (if out_ok u (length (outbound u)) then uploadFile_loop h fb endi u' else (False, u'))"
    proof -
      have sp': "sendPacket u x = (out_ok u (length (outbound u)), u\<lparr>outbound := outbound u @ [x]\<rparr>)"
        for x by (simp add: sendPacket_def transferOut_def)
      show ?thesis
        apply (subst uploadFile_loop.simps)
        apply (simp only: True if_True Let_def sp' prod.case)
        apply (simp only: endi_def[symmetric] sliced_def[symmetric] w_def[symmetric]
            u'_def[symmetric])
        done
    qed
    have split: "sliced @ drop endi fb = drop i fb"
    proof -
      have "drop endi fb = drop (endi - i) (drop i fb)" using e by simp
      then show ?thesis unfolding sliced_def by (simp only: append_take_drop_id)
    qed
    show ?thesis
    proof (cases "out_ok u (length (outbound u))")
      case False
      then show ?thesis
        using wne by (auto simp add: step u'_def intro!: exI[of _ "[w]"])
    next
      case ok: True
      from "1.IH"[OF True endi_def sliced_def _ ok, of u'] sp ok
      obtain ws where ws: "outbound (snd (uploadFile_loop h fb endi u')) = outbound u' @ ws"
        "[] \<notin> set ws"
        "(\<forall>k. out_ok u' k) \<longrightarrow> fst (uploadFile_loop h fb endi u')
             \<and> concat ws = (if endi = 0 \<and> fb \<noteq> [] then h else []) @ drop endi fb"
        by (auto simp add: w_def sliced_def)
      have "outbound (snd (uploadFile_loop h fb i u)) = outbound u @ (w # ws)"
        using ws(1) ok by (simp add: step u'_def)
      moreover have "[] \<notin> set (w # ws)" using ws(2) wne by simp
      moreover have "(\<forall>k. out_ok u k) \<longrightarrow> fst (uploadFile_loop h fb i u)
             \<and> concat (w # ws) = (if i = 0 \<and> fb \<noteq> [] then h else []) @ drop i fb"
      proof
        assume a: "\<forall>k. out_ok u k"
        then have "\<forall>k. out_ok u' k" by (simp add: u'_def)
        with ws(3) have f: "fst (uploadFile_loop h fb endi u')"
          and c: "concat ws = (if endi = 0 \<and> fb \<noteq> [] then h else []) @ drop endi fb" by simp_all
        have "concat (w # ws) = w @ drop endi fb" using c e by simp
        also have "\<dots> = (if i = 0 \<and> fb \<noteq> [] then h else []) @ drop i fb"
          using True split by (auto simp add: w_def)
        finally show "fst (uploadFile_loop h fb i u)
             \<and> concat (w # ws) = (if i = 0 \<and> fb \<noteq> [] then h else []) @ drop i fb"
          using f ok by (simp add: step)
      qed
      ultimately show ?thesis by blast
    qed
  qed
qed
lemma uploadFile_loop_one_write:
  assumes "fb \<noteq> []" and "length fb < MTP_PACKET_MAX_SIZE" and "out_ok u (length (outbound u))"
  shows "uploadFile_loop h fb 0 u = (True, u\<lparr>outbound := outbound u @ [h @ fb]\<rparr>)"
proof -
  have 1: "uploadFile_loop h fb 0 u = uploadFile_loop h fb (length fb) (u\<lparr>outbound := outbound u @ [h @ fb]\<rparr>)"
    using assms by (subst uploadFile_loop.simps) (simp add: Let_def sendPacket_def transferOut_def)
  have 2: "uploadFile_loop h fb (length fb) u' = (True, u')" for u'
    by (subst uploadFile_loop.simps) simp
  show ?thesis unfolding 1 2 ..
qed

text \<open>
  Claim C5 as stated fails. For a file of 500 bytes the Data phase is 512 bytes long, an
  exact multiple of 512; \<open>uploadFile\<close> resolves \<open>true\<close> after two writes, the Command and
  the 512-byte Data packet, and no zero-length write follows.
\<close>

theorem uploadFile_multiple_of_512_counterexample:
  "(12 + length (replicate 500 (0x41::u8))) mod 512 = 0
   \<and> fst (uploadFile one_file_device (replicate 500 0x41) (usb_of [Data ok_response, Data ok_response]))
       = Resolved True
   \<and> outbound (snd (snd (uploadFile one_file_device (replicate 500 0x41)
        (usb_of [Data ok_response, Data ok_response]))))
       = [[0x0c, 0, 0, 0, 1, 0, 0x0d, 0x10, 9, 0, 0, 0],
          [0x00, 0x02, 0, 0, 2, 0, 0x0d, 0x10, 9, 0, 0, 0] @ replicate 500 0x41]"
proof -
  let ?u = "usb_of [Data ok_response, Data ok_response]"
  let ?fb = "replicate 500 (0x41::u8)"
  have rp: "receivePackets ?u 2 = (Some [ok_response, ok_response], ?u\<lparr>in_count := 2\<rparr>)"
    by (simp add: numeral_2_eq_2 getPacket_def transferIn_def usb_of_def)
  have tx: "transactionID (one_file_device\<lparr>transactionID := transactionID one_file_device + 1\<rparr>) = 9"
    by (simp add: one_file_device_def new_MTPDevice_def)
  have cmd: "upload_command 9 = [0x0c, 0, 0, 0, 1, 0, 0x0d, 0x10, 9, 0, 0, 0]"
    by (simp add: upload_command_def le_bytes_4 le_bytes_2 SEND_OBJECT_def)
  have hdr: "upload_data_header 9 (length ?fb) = [0x00, 0x02, 0, 0, 2, 0, 0x0d, 0x10, 9, 0, 0, 0]"
    by (simp add: upload_data_header_def le_bytes_4 le_bytes_2 SEND_OBJECT_def)
  have loop: "uploadFile_loop h ?fb 0 (?u\<lparr>in_count := 2, outbound := [c]\<rparr>)
                = (True, ?u\<lparr>in_count := 2, outbound := [c, h @ ?fb]\<rparr>)" for h c
    by (subst uploadFile_loop_one_write) (simp_all add: MTP_PACKET_MAX_SIZE_def usb_of_def)
  have r: "uploadFile one_file_device ?fb ?u =
        (Resolved True, one_file_device\<lparr>transactionID := transactionID one_file_device + 1\<rparr>,
         ?u\<lparr>in_count := 2, outbound := [upload_command 9, upload_data_header 9 (length ?fb) @ ?fb]\<rparr>)"
    unfolding uploadFile_def rp
    apply (simp only: prod.case Let_def tx uploadFile_command uploadFile_data_header)
    apply (simp add: sendPacket_def transferOut_def usb_of_def code_ok_response)
    apply (simp add: loop[unfolded usb_of_def, simplified] code_ok_response)
    done
  show ?thesis unfolding r cmd hdr by simp
qed

text \<open>
  Claim C5, amended. For every uploaded byte sequence, whether or not \<open>12 + |fileBytes|\<close>
  is a multiple of 512, \<open>uploadFile\<close> writes its Command and then the Data phase in
  buffers none of which is empty: no zero-length write is made, the Data phase ends with
  its last chunk. When every write succeeds the buffers of the Data phase are, joined,
  the 12-byte Data header (which declares \<open>12 + |fileBytes|\<close>) followed by the bytes of the
  file; for an empty file there is no Data phase at all.
\<close>

theorem uploadFile_no_zero_length_write:
  "\<exists>ds. outbound (snd (snd (uploadFile dev fileBytes u)))
            = outbound u @ upload_command (transactionID dev + 1) # ds
        \<and> [] \<notin> set ds
        \<and> ((\<forall>k. out_ok u k) \<longrightarrow>
             concat ds = (if fileBytes = [] then []
                          else upload_data_header (transactionID dev + 1) (length fileBytes) @ fileBytes))"
proof (cases "out_ok u (length (outbound u))")
  case False
  then show ?thesis
    by (auto simp add: uploadFile_outbound intro!: exI[of _ "[]"])
next
  case True
  let ?u2 = "snd (sendPacket (snd (receivePackets u 2)) (upload_command (transactionID dev + 1)))"
  have f: "outbound ?u2 = outbound u @ [upload_command (transactionID dev + 1)]" "out_ok ?u2 = out_ok u"
    using receivePackets_frame[of u 2] by (simp_all add: sendPacket_def transferOut_def)
  from uploadFile_loop_writes[of "upload_data_header (transactionID dev + 1) (length fileBytes)" fileBytes 0 ?u2]
  obtain ws where ws: "outbound (snd (uploadFile_loop (upload_data_header (transactionID dev + 1) (length fileBytes)) fileBytes 0 ?u2))
       = outbound ?u2 @ ws" "[] \<notin> set ws"
     "(\<forall>k. out_ok ?u2 k) \<longrightarrow> concat ws = (if (0::nat) = 0 \<and> fileBytes \<noteq> [] then upload_data_header (transactionID dev + 1) (length fileBytes) else []) @ drop 0 fileBytes"
    by blast
  show ?thesis
    using True ws by (auto simp add: uploadFile_outbound f intro!: exI[of _ ws])
qed

theorem uploadFile_no_zero_length_write_witness:
  "(\<forall>k. out_ok (usb_of [Data ok_response, Data ok_response]) k)
   \<and> (\<exists>ds. outbound (snd (snd (uploadFile one_file_device [1, 2, 3]
                 (usb_of [Data ok_response, Data ok_response]))))
               = outbound (usb_of [Data ok_response, Data ok_response])
                 @ upload_command (transactionID one_file_device + 1) # ds
             \<and> [] \<notin> set ds
             \<and> concat ds = upload_data_header (transactionID one_file_device + 1) 3 @ [1, 2, 3])"
proof -
  let ?u = "usb_of [Data ok_response, Data ok_response]"
  have a: "\<forall>k. out_ok ?u k" by (simp add: usb_of_def)
  from uploadFile_no_zero_length_write[of one_file_device "[1, 2, 3]" ?u] a
  have "\<exists>ds. outbound (snd (snd (uploadFile one_file_device [1, 2, 3] ?u)))
               = outbound ?u @ upload_command (transactionID one_file_device + 1) # ds
             \<and> [] \<notin> set ds
             \<and> concat ds = upload_data_header (transactionID one_file_device + 1) 3 @ [1, 2, 3]"
    by (auto simp add: numeral_3_eq_3)
  with a show ?thesis by (intro conjI)
qed

section \<open>The configuration file\<close>

lemma split_on_ne [simp]: "split_on sep s \<noteq> []"
  by (induction s) (auto split: list.splits)

lemma split_on_hd: "hd (split_on sep s) = takeWhile (\<lambda>c. c \<noteq> sep) s"
  by (induction s) (auto split: list.splits)

lemma split_on_tl:
  "tl (split_on sep s) =
     (if sep \<in> set s then split_on sep (tl (dropWhile (\<lambda>c. c \<noteq> sep) s)) else [])"
  by (induction s) (auto split: list.splits)

lemma split_on_cases:
  "split_on CHR ''='' line =
     (if CHR ''='' \<in> set line
      then key_of line # split_on CHR ''='' (tl (dropWhile (\<lambda>c. c \<noteq> CHR ''='') line))
      else [key_of line])"
proof -
  have "split_on CHR ''='' line = hd (split_on CHR ''='' line) # tl (split_on CHR ''='' line)"
    by simp
  then show ?thesis
    unfolding split_on_hd split_on_tl key_of_def by simp
qed

lemma line_step:
  "(case split_on CHR ''='' line of
      k # v # _ \<Rightarrow> if v \<noteq> [] then set_property obj k v else obj
    | _ \<Rightarrow> obj)
   = (if kept line then obj(key_of line \<mapsto> value_of line) else obj)"
proof (cases "CHR ''='' \<in> set line")
  case False
  then show ?thesis by (simp add: split_on_cases kept_def)
next
  case True
  let ?r = "tl (dropWhile (\<lambda>c. c \<noteq> CHR ''='') line)"
  have "split_on CHR ''='' ?r = hd (split_on CHR ''='' ?r) # tl (split_on CHR ''='' ?r)"
    by simp
  then have r: "split_on CHR ''='' ?r = value_of line # tl (split_on CHR ''='' ?r)"
    unfolding split_on_hd value_of_def .
  have s: "split_on CHR ''='' line = key_of line # value_of line # tl (split_on CHR ''='' ?r)"
    using True r by (subst split_on_cases) simp
  show ?thesis
    unfolding s by (simp add: kept_def set_property_def True)
qed

lemma fold_entries:
  "fold (\<lambda>line obj. if kept line then obj(key_of line \<mapsto> value_of line) else obj) ls m
     = m ++ map_of (rev [(key_of l, value_of l). l \<leftarrow> ls, kept l])"
proof (induction ls arbitrary: m)
  case Nil
  then show ?case by simp
next
  case (Cons l ls)
  let ?es = "rev [(key_of l, value_of l). l \<leftarrow> ls, kept l]"
  show ?case
  proof (cases "kept l")
    case True
    have "m ++ map_of (?es @ [(key_of l, value_of l)])
            = m ++ (map_of [(key_of l, value_of l)] ++ map_of ?es)"
      by (simp only: map_of_append)
    also have "\<dots> = (m ++ map_of [(key_of l, value_of l)]) ++ map_of ?es"
      by (simp only: map_add_assoc)
    also have "m ++ map_of [(key_of l, value_of l)] = m(key_of l \<mapsto> value_of l)"
      by simp
    finally show ?thesis using True by (simp add: Cons.IH)
  next
    case False
    then show ?thesis by (simp add: Cons.IH)
  qed
qed


lemma split_lines_ne [simp]: "split_lines s \<noteq> []"
  by (induction s rule: split_lines.induct) (simp_all split: list.splits)

text \<open>Where the lines break: at \<open>\r\n\<close>, at \<open>\n\<close>, and at a \<open>\r\<close> that no \<open>\n\<close> follows.\<close>

lemma split_lines_line:
  assumes "CHR 0x0D \<notin> set l" and "CHR 0x0A \<notin> set l"
  shows "split_lines l = [l]"
  using assms by (induction l) auto

lemma split_lines_crlf:
  assumes "CHR 0x0D \<notin> set l" and "CHR 0x0A \<notin> set l"
  shows "split_lines (l @ [CHR 0x0D, CHR 0x0A] @ rest) = l # split_lines rest"
  using assms by (induction l) auto

lemma split_lines_lf:
  assumes "CHR 0x0D \<notin> set l" and "CHR 0x0A \<notin> set l"
  shows "split_lines (l @ [CHR 0x0A] @ rest) = l # split_lines rest"
  using assms by (induction l) auto

lemma split_lines_cr:
  assumes "CHR 0x0D \<notin> set l" and "CHR 0x0A \<notin> set l" and "take 1 rest \<noteq> [CHR 0x0A]"
  shows "split_lines (l @ [CHR 0x0D] @ rest) = l # split_lines rest"
  using assms by (induction l) (auto split: list.splits)

lemma stringToObj_lines:
  "stringToObj s = map_of (rev [(key_of l, value_of l). l \<leftarrow> split_lines s, kept l])"
  unfolding stringToObj_def line_step fold_entries by simp

lemma stringToObj_cons:
  assumes "split_lines s = l # split_lines rest" and "split_lines l = [l]"
  shows "stringToObj s = stringToObj l ++ stringToObj rest"
  unfolding stringToObj_lines assms by (simp add: map_of_append)

text \<open>Every text is a line without terminators, alone or followed by one of the three
  terminators and the rest of the text.\<close>

lemma text_cases:
  "\<exists>l rest. CHR 0x0D \<notin> set l \<and> CHR 0x0A \<notin> set l
     \<and> (s = l \<or> s = l @ [CHR 0x0D, CHR 0x0A] @ rest \<or> s = l @ [CHR 0x0A] @ rest
          \<or> (s = l @ [CHR 0x0D] @ rest \<and> take 1 rest \<noteq> [CHR 0x0A]))"
proof -
  let ?P = "\<lambda>c. c \<noteq> CHR 0x0D \<and> c \<noteq> CHR 0x0A"
  let ?l = "takeWhile ?P s"
  have s: "s = ?l @ dropWhile ?P s" by simp
  have l: "CHR 0x0D \<notin> set ?l" "CHR 0x0A \<notin> set ?l"
    by (auto dest: set_takeWhileD)
  show ?thesis
  proof (cases "dropWhile ?P s")
    case Nil
    with s have "s = ?l" by simp
    with l show ?thesis by blast
  next
    case (Cons c r)
    then have "\<not> ?P c" using hd_dropWhile[of ?P s] by auto
    then consider "c = CHR 0x0A" | "c = CHR 0x0D" "take 1 r = [CHR 0x0A]"
      | "c = CHR 0x0D" "take 1 r \<noteq> [CHR 0x0A]" by blast
    then show ?thesis
    proof cases
      case 1
      with s Cons have "s = ?l @ [CHR 0x0A] @ r" by simp
      with l show ?thesis by blast
    next
      case 2
      then obtain r' where "r = CHR 0x0A # r'" by (cases r) auto
      with s Cons 2 have "s = ?l @ [CHR 0x0D, CHR 0x0A] @ r'" by simp
      with l show ?thesis by blast
    next
      case 3
      with s Cons have "s = ?l @ [CHR 0x0D] @ r" by simp
      with l 3 show ?thesis by blast
    qed
  qed
qed

text \<open>
  Claim C9 as stated fails. The line \<open>Password=Lena=1\<close> has the form \<open>KEY=VALUE\<close> with the
  value \<open>Lena=1\<close>, and the entry made is \<open>Password \<mapsto> Lena\<close>; the line \<open>Mode==x\<close> has an \<open>=\<close>
  and the non-empty right-hand side \<open>=x\<close>, and it is dropped.
\<close>

theorem stringToObj_second_equals_counterexample:
  "stringToObj ''Password=Lena=1'' ''Password'' = Some ''Lena''
   \<and> stringToObj ''Password=Lena=1'' ''Password'' \<noteq> Some ''Lena=1''
   \<and> stringToObj ''Mode==x'' ''Mode'' = None"
  by (simp add: stringToObj_def set_property_def)

text \<open>
  Claim C9, amended. Let \<open>l\<close> be a line, a text without \<open>\r\<close> and \<open>\n\<close>. The parser maps \<open>l\<close>
  alone to the single entry from the text before its first \<open>=\<close> to the text between the
  first \<open>=\<close> and the next \<open>=\<close> or the end of the line, when \<open>l\<close> has an \<open>=\<close>, that text is not
  empty and the key is not \<open>__proto__\<close>; otherwise \<open>l\<close> is dropped and the result is empty.
  The parser splits on \<open>\r\n\<close>, \<open>\r\<close> and \<open>\n\<close>: a text that begins with \<open>l\<close> and \<open>\r\n\<close>, or \<open>l\<close>
  and \<open>\n\<close>, or \<open>l\<close> and a \<open>\r\<close> that no \<open>\n\<close> follows, is mapped to the entries of \<open>l\<close> and those
  of the rest of the text, an entry of a later line replacing the entry of an earlier
  line with the same key. By \<open>text_cases\<close> every text has one of these four forms, so
  these equations fix the result for every text.
\<close>

theorem stringToObj_entries:
  assumes "CHR 0x0D \<notin> set l" and "CHR 0x0A \<notin> set l"
  shows "stringToObj l = (if kept l then [key_of l \<mapsto> value_of l] else Map.empty)
   \<and> stringToObj (l @ [CHR 0x0D, CHR 0x0A] @ rest) = stringToObj l ++ stringToObj rest
   \<and> stringToObj (l @ [CHR 0x0A] @ rest) = stringToObj l ++ stringToObj rest
   \<and> (take 1 rest \<noteq> [CHR 0x0A] \<longrightarrow>
        stringToObj (l @ [CHR 0x0D] @ rest) = stringToObj l ++ stringToObj rest)"
proof (intro conjI impI)
  note line = split_lines_line[OF assms]
  show "stringToObj l = (if kept l then [key_of l \<mapsto> value_of l] else Map.empty)"
    unfolding stringToObj_lines line by simp
  show "stringToObj (l @ [CHR 0x0D, CHR 0x0A] @ rest) = stringToObj l ++ stringToObj rest"
    by (rule stringToObj_cons[OF split_lines_crlf[OF assms] line])
  show "stringToObj (l @ [CHR 0x0A] @ rest) = stringToObj l ++ stringToObj rest"
    by (rule stringToObj_cons[OF split_lines_lf[OF assms] line])
  assume "take 1 rest \<noteq> [CHR 0x0A]"
  from split_lines_cr[OF assms this]
  show "stringToObj (l @ [CHR 0x0D] @ rest) = stringToObj l ++ stringToObj rest"
    by (rule stringToObj_cons[OF _ line])
qed

text \<open>The example of the specification, and two lines separated by a single \<open>\r\<close> or
  \<open>\n\<close>.\<close>

theorem stringToObj_entries_witness:
  "CHR 0x0D \<notin> set ''SerialNumber=ABC123'' \<and> CHR 0x0A \<notin> set ''SerialNumber=ABC123''
   \<and> CHR 0x0D \<notin> set ''AudioLength=42'' \<and> CHR 0x0A \<notin> set ''AudioLength=42''
   \<and> stringToObj config_example = [''SerialNumber'' \<mapsto> ''ABC123'', ''AudioLength'' \<mapsto> ''42'']
   \<and> CHR 0x0D \<notin> set ''A=1'' \<and> CHR 0x0A \<notin> set ''A=1'' \<and> take 1 ''B=2'' \<noteq> [CHR 0x0A]
   \<and> stringToObj (''A=1'' @ [CHR 0x0D] @ ''B=2'') = [''A'' \<mapsto> ''1'', ''B'' \<mapsto> ''2'']
   \<and> stringToObj (''A=1'' @ [CHR 0x0A] @ ''B=2'') = [''A'' \<mapsto> ''1'', ''B'' \<mapsto> ''2'']"
proof -
  have s: "CHR 0x0D \<notin> set ''SerialNumber=ABC123''" "CHR 0x0A \<notin> set ''SerialNumber=ABC123''"
    and a: "CHR 0x0D \<notin> set ''AudioLength=42''" "CHR 0x0A \<notin> set ''AudioLength=42''"
    and e: "CHR 0x0D \<notin> set []" "CHR 0x0A \<notin> set []"
    and l: "CHR 0x0D \<notin> set ''A=1''" "CHR 0x0A \<notin> set ''A=1''"
    and b: "CHR 0x0D \<notin> set ''B=2''" "CHR 0x0A \<notin> set ''B=2''"
    and t: "take 1 ''B=2'' \<noteq> [CHR 0x0A]"
    by simp_all
  have 1: "stringToObj [] = Map.empty"
    using stringToObj_entries[OF e, of "[]"] by (simp add: kept_def)
  have 2: "stringToObj (''AudioLength=42'' @ [CHR 0x0D, CHR 0x0A]) = [''AudioLength'' \<mapsto> ''42'']"
    using stringToObj_entries[OF a, of "[]"] 1 by (simp add: kept_def key_of_def value_of_def)
  have 3: "stringToObj config_example = [''SerialNumber'' \<mapsto> ''ABC123'', ''AudioLength'' \<mapsto> ''42'']"
    using stringToObj_entries[OF s, of "''AudioLength=42'' @ [CHR 0x0D, CHR 0x0A]"] 2
    by (simp add: config_example_def kept_def key_of_def value_of_def)
  have 4: "stringToObj ''B=2'' = [''B'' \<mapsto> ''2'']"
    using stringToObj_entries[OF b, of "[]"] by (simp add: kept_def key_of_def value_of_def)
  have 5: "stringToObj (''A=1'' @ [CHR 0x0D] @ ''B=2'') = [''A'' \<mapsto> ''1'', ''B'' \<mapsto> ''2'']"
    "stringToObj (''A=1'' @ [CHR 0x0A] @ ''B=2'') = [''A'' \<mapsto> ''1'', ''B'' \<mapsto> ''2'']"
    using stringToObj_entries[OF l, of "''B=2''"] t 4
    by (simp_all add: kept_def key_of_def value_of_def)
  from s a 3 l t 5 show ?thesis by (intro conjI)
qed

end
